theory Spec2Isabelle
  imports Main "HOL-Library.AList"
begin

section \<open>Values shared by the packages\<close>

text \<open>
  Go's \<^verbatim>\<open>map[string]interface{}\<close> holds, in this program, strings, booleans and nested
  maps of the same kind. A map is a partial function from keys to values, so that the
  order in which Go ranges over it cannot be observed in the result.
\<close>

datatype jvalue = JString string | JBool bool | JMap "string \<Rightarrow> jvalue option"

text \<open>
  \<^verbatim>\<open>context.Context\<close>: the deadline (in milliseconds of the clock, \<open>None\<close> when the
  context has none) and the values attached to it.
\<close>

record Context =
  ctx_deadline :: "nat option"
  ctx_Value :: "string \<Rightarrow> jvalue option"

definition Background :: Context where
  "Background = \<lparr>ctx_deadline = None, ctx_Value = (\<lambda>_. None)\<rparr>"

text \<open>
  \<^verbatim>\<open>context.WithTimeout(parent, d)\<close> called at time \<open>now\<close>: the earlier of the parent's
  deadline and \<open>now + d\<close>.
\<close>

definition WithTimeout :: "Context \<Rightarrow> nat \<Rightarrow> nat \<Rightarrow> Context" where
  "WithTimeout parent now d =
     parent\<lparr>ctx_deadline :=
       Some (case ctx_deadline parent of None \<Rightarrow> now + d | Some p \<Rightarrow> min p (now + d))\<rparr>"

section \<open>Package health\<close>

text \<open>
  A call of \<^verbatim>\<open>checker.Check(ctx)\<close> either returns (\<open>None\<close> for \<^verbatim>\<open>nil\<close>, \<open>Some msg\<close> for an
  error whose \<^verbatim>\<open>Error()\<close> is \<open>msg\<close>) or never returns.
\<close>

datatype check_outcome = Returns "string option" | NeverReturns

record HealthChecker =
  checker_Name :: string
  checker_Check :: "Context \<Rightarrow> check_outcome"

text \<open>
  \<^verbatim>\<open>HealthService.checkers\<close> is a Go map: an association list with one entry per key,
  maintained by \<open>AList.update\<close>. The list fixes an order for the loop of \<^verbatim>\<open>Check\<close>;
  \<open>Check_any_order\<close> below shows that the order does not matter. Every service comes from
  \<^verbatim>\<open>NewHealthService\<close>, so that the map is never \<^verbatim>\<open>nil\<close>. The mutex \<^verbatim>\<open>mu\<close> is
  modelled separately, where the interleaving of callers matters.
\<close>

record HealthService =
  checkers :: "(string \<times> HealthChecker) list"
  ready :: bool
  shuttingDown :: bool

definition NewHealthService :: HealthService where
  "NewHealthService = \<lparr>checkers = [], ready = False, shuttingDown = False\<rparr>"

definition RegisterChecker :: "HealthChecker \<Rightarrow> HealthService \<Rightarrow> HealthService" where
  "RegisterChecker checker h =
     h\<lparr>checkers := AList.update (checker_Name checker) checker (checkers h)\<rparr>"

definition SetReady :: "bool \<Rightarrow> HealthService \<Rightarrow> HealthService" where
  "SetReady b h = h\<lparr>ready := b\<rparr>"

definition SetShuttingDown :: "bool \<Rightarrow> HealthService \<Rightarrow> HealthService" where
  "SetShuttingDown b h = h\<lparr>shuttingDown := b\<rparr>"

text \<open>
  The loop of \<^verbatim>\<open>Check\<close> over the checker map. The state of the loop is the pair of the
  maps \<^verbatim>\<open>result\<close> and \<^verbatim>\<open>checkResults\<close>; a checker that never returns keeps the loop,
  and so \<^verbatim>\<open>Check\<close>, from returning (\<open>None\<close>).
\<close>

fun run_checkers ::
  "Context \<Rightarrow> (string \<times> HealthChecker) list \<Rightarrow>
   (string \<Rightarrow> jvalue option) \<times> (string \<Rightarrow> jvalue option) \<Rightarrow>
   ((string \<Rightarrow> jvalue option) \<times> (string \<Rightarrow> jvalue option)) option" where
  "run_checkers ctx [] (result, checkResults) = Some (result, checkResults)"
| "run_checkers ctx ((name, checker) # rest) (result, checkResults) =
     (case checker_Check checker ctx of
        NeverReturns \<Rightarrow> None
      | Returns (Some err) \<Rightarrow>
          run_checkers ctx rest
            (result(''status'' \<mapsto> JString ''unhealthy''),
             checkResults(name \<mapsto>
               JMap [''status'' \<mapsto> JString ''unhealthy'', ''error'' \<mapsto> JString err]))
      | Returns None \<Rightarrow>
          run_checkers ctx rest
            (result, checkResults(name \<mapsto> JMap [''status'' \<mapsto> JString ''healthy''])))"

text \<open>
  \<^verbatim>\<open>Check\<close>; \<open>now\<close> is the string \<^verbatim>\<open>time.Now().UTC().Format(time.RFC3339)\<close>.
\<close>

definition Check ::
  "HealthService \<Rightarrow> Context \<Rightarrow> string \<Rightarrow> (string \<Rightarrow> jvalue option) option" where
  "Check h ctx now =
     (case run_checkers ctx (checkers h)
             ([''status'' \<mapsto> JString ''healthy'',
               ''timestamp'' \<mapsto> JString now,
               ''ready'' \<mapsto> JBool (ready h),
               ''shutting_down'' \<mapsto> JBool (shuttingDown h)],
              Map.empty) of
        None \<Rightarrow> None
      | Some (result, checkResults) \<Rightarrow> Some (result(''checks'' \<mapsto> JMap checkResults)))"

definition NewCertificateChecker :: "string \<Rightarrow> HealthChecker" where
  "NewCertificateChecker certFile =
     \<lparr>checker_Name = ''certificate'', checker_Check = (\<lambda>ctx. Returns None)\<rparr>"

definition NewTunnelConnectionChecker :: "int \<Rightarrow> HealthChecker" where
  "NewTunnelConnectionChecker minConnections =
     \<lparr>checker_Name = ''tunnel_connections'', checker_Check = (\<lambda>ctx. Returns None)\<rparr>"

text \<open>
  Two checkers to run the definitions on: one that always returns the error \<open>msg\<close>, and
  one whose \<^verbatim>\<open>Check\<close> never returns, whatever the context.
\<close>

definition failing_checker :: "string \<Rightarrow> string \<Rightarrow> HealthChecker" where
  "failing_checker name msg =
     \<lparr>checker_Name = name, checker_Check = (\<lambda>ctx. Returns (Some msg))\<rparr>"

definition stuck_checker :: "string \<Rightarrow> HealthChecker" where
  "stuck_checker name = \<lparr>checker_Name = name, checker_Check = (\<lambda>ctx. NeverReturns)\<rparr>"

text \<open>
  How a checker's call ends, as predicates to state the results with: \<open>responds\<close> when
  the call returns at all, \<open>fails\<close> when it returns an error.
\<close>

definition responds :: "Context \<Rightarrow> HealthChecker \<Rightarrow> bool" where
  "responds ctx c = (checker_Check c ctx \<noteq> NeverReturns)"

definition fails :: "Context \<Rightarrow> HealthChecker \<Rightarrow> bool" where
  "fails ctx c = (case checker_Check c ctx of Returns (Some err) \<Rightarrow> True | _ \<Rightarrow> False)"

text \<open>The entry that the loop of \<^verbatim>\<open>Check\<close> stores for a checker that returned.\<close>

definition check_entry :: "Context \<Rightarrow> HealthChecker \<Rightarrow> jvalue" where
  "check_entry ctx c =
     (case checker_Check c ctx of
        Returns (Some err) \<Rightarrow>
          JMap [''status'' \<mapsto> JString ''unhealthy'', ''error'' \<mapsto> JString err]
      | _ \<Rightarrow> JMap [''status'' \<mapsto> JString ''healthy''])"

text \<open>
  Modelled from the spec: \<^verbatim>\<open>IsReady\<close> and \<^verbatim>\<open>IsShuttingDown\<close> are called by
  \<^verbatim>\<open>cmd/server/main.go\<close> and are not in the health package as given. The specification
  (section 4.2) has them take the read side of the lock and return the current value of
  the flag.
\<close>

definition IsReady :: "HealthService \<Rightarrow> bool" where
  "IsReady h = ready h"

definition IsShuttingDown :: "HealthService \<Rightarrow> bool" where
  "IsShuttingDown h = shuttingDown h"

section \<open>The HTTP handlers of cmd/server\<close>

text \<open>
  What a handler leaves in the \<^verbatim>\<open>http.ResponseWriter\<close>: the status code, the headers
  it set, and the body, either the bytes given to \<^verbatim>\<open>w.Write\<close> or the value given to
  \<^verbatim>\<open>json.NewEncoder(w).Encode\<close>.
\<close>

datatype body = Text string | JsonBody "string \<Rightarrow> jvalue option"

record Response =
  resp_status :: nat
  resp_header :: "(string \<times> string) list"
  resp_body :: body

definition StatusOK :: nat where
  "StatusOK = 200"

definition StatusServiceUnavailable :: nat where
  "StatusServiceUnavailable = 503"

text \<open>
  The handler of \<^verbatim>\<open>/healthz\<close>. It does not answer (\<open>None\<close>) when \<^verbatim>\<open>Check\<close> does not
  return. The comparison \<^verbatim>\<open>result["status"] == "unhealthy"\<close> holds when the entry is the
  string \<^verbatim>\<open>unhealthy\<close>.
\<close>

definition healthz :: "HealthService \<Rightarrow> Context \<Rightarrow> string \<Rightarrow> Response option" where
  "healthz healthService ctx now =
     (case Check healthService ctx now of
        None \<Rightarrow> None
      | Some result \<Rightarrow>
          Some \<lparr>resp_status =
                   (if result ''status'' = Some (JString ''unhealthy'') \<or>
                       IsShuttingDown healthService
                    then StatusServiceUnavailable else StatusOK),
                 resp_header = [(''Content-Type'', ''application/json'')],
                 resp_body = JsonBody result\<rparr>)"

text \<open>The handler of \<^verbatim>\<open>/readyz\<close>.\<close>

definition readyz :: "HealthService \<Rightarrow> Response" where
  "readyz healthService =
     (if IsShuttingDown healthService
      then \<lparr>resp_status = StatusServiceUnavailable, resp_header = [],
            resp_body = Text ''shutting down''\<rparr>
      else if \<not> IsReady healthService
      then \<lparr>resp_status = StatusServiceUnavailable, resp_header = [],
            resp_body = Text ''not ready''\<rparr>
      else \<lparr>resp_status = StatusOK, resp_header = [], resp_body = Text ''ready''\<rparr>)"

section \<open>Package logging\<close>

text \<open>\<^verbatim>\<open>type Level int\<close> with the constants \<^verbatim>\<open>DEBUG\<close> to \<^verbatim>\<open>FATAL\<close> numbered by \<^verbatim>\<open>iota\<close>.\<close>

type_synonym Level = int

definition DEBUG :: Level where
  "DEBUG = 0"

definition INFO :: Level where
  "INFO = 1"

definition WARN :: Level where
  "WARN = 2"

definition ERROR :: Level where
  "ERROR = 3"

definition FATAL :: Level where
  "FATAL = 4"

definition Level_String :: "Level \<Rightarrow> string" where
  "Level_String l =
     (if l = DEBUG then ''DEBUG''
      else if l = INFO then ''INFO''
      else if l = WARN then ''WARN''
      else if l = ERROR then ''ERROR''
      else if l = FATAL then ''FATAL''
      else ''UNKNOWN'')"

record LogEntry =
  Timestamp :: string
  Level :: string
  Service :: string
  Environment :: string
  Message :: string
  TraceID :: string
  SpanID :: string
  Fields :: "string \<Rightarrow> jvalue option"

record JSONFormatter =
  TimestampFormat :: string
  PrettyPrint :: bool

text \<open>
  The library calls of \<^verbatim>\<open>JSONFormatter.Format\<close>, as parameters:
  \<^verbatim>\<open>time.Now().Format(layout)\<close>, \<^verbatim>\<open>json.Marshal\<close> and \<^verbatim>\<open>json.MarshalIndent\<close>
  (\<open>None\<close> when they return an error).
\<close>

record Library =
  time_Now_Format :: "string \<Rightarrow> string"
  json_Marshal :: "LogEntry \<Rightarrow> string option"
  json_MarshalIndent :: "LogEntry \<Rightarrow> string option"

definition RFC3339 :: string where
  "RFC3339 = ''2006-01-02T15:04:05Z07:00''"

text \<open>
  \<^verbatim>\<open>Format\<close> has a pointer receiver and stores the default layout in the formatter: it
  returns the bytes (or the error, \<open>None\<close>) and the formatter as it is afterwards.
\<close>

definition Format ::
  "Library \<Rightarrow> JSONFormatter \<Rightarrow> LogEntry \<Rightarrow> string option \<times> JSONFormatter" where
  "Format lib f entry =
     (let f' = (if TimestampFormat f = [] then f\<lparr>TimestampFormat := RFC3339\<rparr> else f);
          entry' = entry\<lparr>Timestamp := time_Now_Format lib (TimestampFormat f')\<rparr>
      in (if PrettyPrint f' then json_MarshalIndent lib entry' else json_Marshal lib entry',
          f'))"

text \<open>
  A \<^verbatim>\<open>Logger\<close> holds its formatter and its output by reference: \<open>formatter\<close> is the
  address of a \<^verbatim>\<open>JSONFormatter\<close> (the only formatter of the package) and \<open>output'\<close> (the field \<^verbatim>\<open>output\<close>) names a
  file. The store holds the formatters and what has been written to each file. The mutex
  of a logger is free between two calls and is left out.
\<close>

record Logger =
  level :: Level
  serviceName :: string
  environment :: string
  formatter :: nat
  output' :: nat

record Store =
  formatter_at :: "nat \<Rightarrow> JSONFormatter option"
  written :: "nat \<Rightarrow> string"

text \<open>
  How a call of a logging method ends: it panics, it returns, or (\<^verbatim>\<open>Fatal\<close>) the process
  exits with a code.
\<close>

datatype log_outcome = Panic string | Done Store | Exit nat Store

text \<open>
  \<^verbatim>\<open>NewLogger\<close> allocates a formatter \<^verbatim>\<open>&JSONFormatter{}\<close> at a fresh address \<open>a\<close> and
  writes to standard output, the file \<open>stdout\<close>.
\<close>

definition NewLogger ::
  "string \<Rightarrow> string \<Rightarrow> Level \<Rightarrow> nat \<Rightarrow> nat \<Rightarrow> Store \<Rightarrow> Logger \<times> Store" where
  "NewLogger sn env lvl a stdout st =
     (\<lparr>level = lvl, serviceName = sn, environment = env, formatter = a, output' = stdout\<rparr>,
      st\<lparr>formatter_at := (formatter_at st)(a \<mapsto> \<lparr>TimestampFormat = [], PrettyPrint = False\<rparr>)\<rparr>)"

text \<open>
  The type assertion \<^verbatim>\<open>v.(string)\<close> on a value found in the context panics when the value
  is not a string. The parameter \<^verbatim>\<open>fields\<close> of the logging methods is written \<open>fields0\<close>,
  and a \<^verbatim>\<open>nil\<close> map is the empty map.
\<close>

definition string_of_value :: "jvalue option \<Rightarrow> string \<Rightarrow> string + string" where
  "string_of_value v dflt =
     (case v of
        None \<Rightarrow> Inr dflt
      | Some (JString x) \<Rightarrow> Inr x
      | Some _ \<Rightarrow> Inl ''interface conversion: interface {} is not string'')"

definition log ::
  "Library \<Rightarrow> Logger \<Rightarrow> Context \<Rightarrow> Level \<Rightarrow> string \<Rightarrow> (string \<Rightarrow> jvalue option) \<Rightarrow>
   Store \<Rightarrow> log_outcome" where
  "log lib l ctx lvl msg fields0 st =
     (if lvl < level l then Done st
      else
        (case string_of_value (ctx_Value ctx ''trace_id'') [] of
           Inl p \<Rightarrow> Panic p
         | Inr traceID \<Rightarrow>
             (case string_of_value (ctx_Value ctx ''span_id'') [] of
                Inl p \<Rightarrow> Panic p
              | Inr spanID \<Rightarrow>
                  (case formatter_at st (formatter l) of
                     None \<Rightarrow> Panic ''invalid memory address or nil pointer dereference''
                   | Some f \<Rightarrow>
                       (case Format lib f
                               \<lparr>Timestamp = [], Level = Level_String lvl,
                                Service = serviceName l, Environment = environment l,
                                Message = msg, TraceID = traceID, SpanID = spanID,
                                Fields = fields0\<rparr> of
                          (None, f') \<Rightarrow>
                            Done (st\<lparr>formatter_at := (formatter_at st)(formatter l \<mapsto> f')\<rparr>)
                        | (Some data, f') \<Rightarrow>
                            Done (st\<lparr>formatter_at := (formatter_at st)(formatter l \<mapsto> f'),
                                     written := (written st)
                                       (output' l := written st (output' l) @ data @
                                          [CHR 0x0A])\<rparr>))))))"

definition Debug ::
  "Library \<Rightarrow> Logger \<Rightarrow> Context \<Rightarrow> string \<Rightarrow> (string \<Rightarrow> jvalue option) \<Rightarrow> Store \<Rightarrow>
   log_outcome" where
  "Debug lib l ctx msg fields0 st = log lib l ctx DEBUG msg fields0 st"

definition Info ::
  "Library \<Rightarrow> Logger \<Rightarrow> Context \<Rightarrow> string \<Rightarrow> (string \<Rightarrow> jvalue option) \<Rightarrow> Store \<Rightarrow>
   log_outcome" where
  "Info lib l ctx msg fields0 st = log lib l ctx INFO msg fields0 st"

definition Warn ::
  "Library \<Rightarrow> Logger \<Rightarrow> Context \<Rightarrow> string \<Rightarrow> (string \<Rightarrow> jvalue option) \<Rightarrow> Store \<Rightarrow>
   log_outcome" where
  "Warn lib l ctx msg fields0 st = log lib l ctx WARN msg fields0 st"

definition Error ::
  "Library \<Rightarrow> Logger \<Rightarrow> Context \<Rightarrow> string \<Rightarrow> (string \<Rightarrow> jvalue option) \<Rightarrow> Store \<Rightarrow>
   log_outcome" where
  "Error lib l ctx msg fields0 st = log lib l ctx ERROR msg fields0 st"

definition Fatal ::
  "Library \<Rightarrow> Logger \<Rightarrow> Context \<Rightarrow> string \<Rightarrow> (string \<Rightarrow> jvalue option) \<Rightarrow> Store \<Rightarrow>
   log_outcome" where
  "Fatal lib l ctx msg fields0 st =
     (case log lib l ctx FATAL msg fields0 st of
        Done st' \<Rightarrow> Exit 1 st'
      | other \<Rightarrow> other)"

definition WithFields :: "Logger \<Rightarrow> (string \<Rightarrow> jvalue option) \<Rightarrow> Logger" where
  "WithFields l fields0 =
     \<lparr>level = level l, serviceName = serviceName l, environment = environment l,
      formatter = formatter l, output' = output' l\<rparr>"

section \<open>The shutdown sequence of cmd/server\<close>

text \<open>
  \<^verbatim>\<open>main\<close> from the wait for the signal (line 107) to its end (line 134), one step per
  statement. The steps are those of the main goroutine; a probe served meanwhile reads the
  health service of the state it falls into. In the code given, \<^verbatim>\<open>main\<close> alone writes the
  two flags.
\<close>

datatype main_pc =
  AwaitSignal | LogSignal | MakeShutdownCtx | MarkShuttingDown | MarkNotReady |
  ShutdownHTTP | ShutdownTunnel | WaitGoroutines | LogCompleted | Returned

datatype component = HTTPServer | TunnelServer

text \<open>
  What \<^verbatim>\<open>main\<close> does not decide: when the signal arrives (\<open>None\<close>: never), how a call
  of \<^verbatim>\<open>httpServer.Shutdown\<close> or \<^verbatim>\<open>server.Shutdown\<close> made with a context at a time ends
  (the time it takes and the error it returns; \<open>None\<close>: it never returns), and how long
  \<^verbatim>\<open>wg.Wait\<close> called at a time waits for the two server goroutines (\<open>None\<close>: for ever).
  Times are in milliseconds.
\<close>

record Surroundings =
  signal_at :: "nat option"
  httpServer_Shutdown :: "Context \<Rightarrow> nat \<Rightarrow> (nat \<times> string option) option"
  server_Shutdown :: "Context \<Rightarrow> nat \<Rightarrow> (nat \<times> string option) option"
  wg_Wait :: "nat \<Rightarrow> nat option"

text \<open>
  The state of \<^verbatim>\<open>main\<close>: where it is, the time, the health service, the shutdown
  context once made, the \<^verbatim>\<open>Shutdown\<close> calls that have returned (component, time of the
  call, context), and the calls of the logger (level, message, fields).
\<close>

record MainState =
  pc :: main_pc
  clock :: nat
  healthService :: HealthService
  shutdownCtx :: "Context option"
  teardowns :: "(component \<times> nat \<times> Context) list"
  logged :: "(Level \<times> string \<times> (string \<Rightarrow> jvalue option)) list"

definition initial :: "HealthService \<Rightarrow> nat \<Rightarrow> MainState" where
  "initial h t =
     \<lparr>pc = AwaitSignal, clock = t, healthService = h, shutdownCtx = None,
      teardowns = [], logged = []\<rparr>"

text \<open>The error branch after a \<^verbatim>\<open>Shutdown\<close> call: \<^verbatim>\<open>logger.Error\<close> with the error.\<close>

definition log_error ::
  "string \<Rightarrow> string option \<Rightarrow> (Level \<times> string \<times> (string \<Rightarrow> jvalue option)) list" where
  "log_error msg err =
     (case err of None \<Rightarrow> [] | Some e \<Rightarrow> [(ERROR, msg, [''error'' \<mapsto> JString e])])"

definition step :: "Surroundings \<Rightarrow> MainState \<Rightarrow> MainState option" where
  "step env s =
     (case pc s of
        AwaitSignal \<Rightarrow>
          (case signal_at env of
             None \<Rightarrow> None
           | Some t \<Rightarrow> Some (s\<lparr>pc := LogSignal, clock := max (clock s) t\<rparr>))
      | LogSignal \<Rightarrow>
          Some (s\<lparr>pc := MakeShutdownCtx,
                  logged := logged s @
                    [(INFO, ''Shutdown signal received, initiating graceful shutdown'',
                      Map.empty)]\<rparr>)
      | MakeShutdownCtx \<Rightarrow>
          Some (s\<lparr>pc := MarkShuttingDown,
                  shutdownCtx := Some (WithTimeout Background (clock s) 30000)\<rparr>)
      | MarkShuttingDown \<Rightarrow>
          Some (s\<lparr>pc := MarkNotReady,
                  healthService := SetShuttingDown True (healthService s)\<rparr>)
      | MarkNotReady \<Rightarrow>
          Some (s\<lparr>pc := ShutdownHTTP, healthService := SetReady False (healthService s)\<rparr>)
      | ShutdownHTTP \<Rightarrow>
          (case shutdownCtx s of
             None \<Rightarrow> None
           | Some ctx \<Rightarrow>
               (case httpServer_Shutdown env ctx (clock s) of
                  None \<Rightarrow> None
                | Some (d, err) \<Rightarrow>
                    Some (s\<lparr>pc := ShutdownTunnel, clock := clock s + d,
                            teardowns := teardowns s @ [(HTTPServer, clock s, ctx)],
                            logged := logged s @
                              log_error ''HTTP server shutdown error'' err\<rparr>)))
      | ShutdownTunnel \<Rightarrow>
          (case shutdownCtx s of
             None \<Rightarrow> None
           | Some ctx \<Rightarrow>
               (case server_Shutdown env ctx (clock s) of
                  None \<Rightarrow> None
                | Some (d, err) \<Rightarrow>
                    Some (s\<lparr>pc := WaitGoroutines, clock := clock s + d,
                            teardowns := teardowns s @ [(TunnelServer, clock s, ctx)],
                            logged := logged s @
                              log_error ''Tunnel server shutdown error'' err\<rparr>)))
      | WaitGoroutines \<Rightarrow>
          (case wg_Wait env (clock s) of
             None \<Rightarrow> None
           | Some d \<Rightarrow> Some (s\<lparr>pc := LogCompleted, clock := clock s + d\<rparr>))
      | LogCompleted \<Rightarrow>
          Some (s\<lparr>pc := Returned,
                  logged := logged s @ [(INFO, ''Graceful shutdown completed'', Map.empty)]\<rparr>)
      | Returned \<Rightarrow> None)"

text \<open>The state after \<open>n\<close> steps, \<open>None\<close> when \<^verbatim>\<open>main\<close> does not get that far.\<close>

fun run :: "Surroundings \<Rightarrow> nat \<Rightarrow> MainState \<Rightarrow> MainState option" where
  "run env 0 s = Some s"
| "run env (Suc n) s = (case run env n s of None \<Rightarrow> None | Some s' \<Rightarrow> step env s')"

text \<open>
  Surroundings to run the sequence on. The signal comes at time 0. The HTTP server has a
  connection that never becomes idle, so that \<^verbatim>\<open>httpServer.Shutdown\<close> returns at the
  deadline of its context with the context's error; the tunnel server stops in 10 ms; the
  goroutines are done when \<^verbatim>\<open>wg.Wait\<close> is called.
\<close>

definition busy_http :: "Context \<Rightarrow> nat \<Rightarrow> (nat \<times> string option) option" where
  "busy_http ctx t =
     (case ctx_deadline ctx of
        None \<Rightarrow> None
      | Some d \<Rightarrow> Some (d - t, Some ''context deadline exceeded''))"

definition busy_surroundings :: Surroundings where
  "busy_surroundings =
     \<lparr>signal_at = Some 0, httpServer_Shutdown = busy_http,
      server_Shutdown = (\<lambda>ctx t. Some (10, None)), wg_Wait = (\<lambda>t. Some 0)\<rparr>"

section \<open>The lock of the health service\<close>

text \<open>
  The calls that take the write side of \<^verbatim>\<open>mu\<close>: each locks, makes one assignment and
  unlocks.
\<close>

datatype setter = CallSetReady bool | CallSetShuttingDown bool | CallRegisterChecker HealthChecker

fun setter_body :: "setter \<Rightarrow> HealthService \<Rightarrow> HealthService" where
  "setter_body (CallSetReady b) h = SetReady b h"
| "setter_body (CallSetShuttingDown b) h = SetShuttingDown b h"
| "setter_body (CallRegisterChecker c) h = RegisterChecker c h"

text \<open>
  The write side of the lock: free, held by a setter that has not yet assigned, or held by
  a setter that has assigned and has still to unlock.
\<close>

datatype write_lock = NoWriter | Locked setter | Assigned

text \<open>
  A call of \<^verbatim>\<open>Check\<close> between its \<^verbatim>\<open>RLock\<close> and its deferred \<^verbatim>\<open>RUnlock\<close>: what it
  has read of the two flags so far and the entries of the checker map its loop has visited
  (calling the checker of each). \<open>locked_at\<close> is not in the code: it keeps the service as
  it was when the call took the read lock, to state the results with.
\<close>

record aggregation =
  locked_at :: HealthService
  read_ready :: "bool option"
  read_shuttingDown :: "bool option"
  visited :: "(string \<times> HealthChecker) list"

text \<open>
  The service with its lock: the calls of \<^verbatim>\<open>Check\<close> that hold the read side, and the
  state of the write side.
\<close>

record Shared =
  service :: HealthService
  aggregations :: "aggregation list"
  holder :: write_lock

text \<open>
  The steps of the goroutines. A reader is named by its position among the aggregations in
  progress; \<open>Visit i k\<close> is the loop of reader \<open>i\<close> reaching entry \<open>k\<close> of the checker map
  as it is then, in any order, each key once.
\<close>

datatype event =
  RLock | ReadReady nat | ReadShuttingDown nat | Visit nat nat | RUnlock nat |
  Lock setter | Assign | Unlock

text \<open>
  A step is taken when the lock allows it (\<open>None\<close> otherwise: the goroutine waits).
  \<^verbatim>\<open>sync.RWMutex\<close> grants the read side when no writer holds the lock and the write side
  when nobody holds it. A reader reads \<^verbatim>\<open>ready\<close>, then \<^verbatim>\<open>shuttingDown\<close>, then ranges over
  the map, and unlocks when the loop has covered every key.
\<close>

fun fire :: "event \<Rightarrow> Shared \<Rightarrow> Shared option" where
  "fire RLock s =
     (if holder s = NoWriter
      then Some (s\<lparr>aggregations := aggregations s @
                    [\<lparr>locked_at = service s, read_ready = None,
                      read_shuttingDown = None, visited = []\<rparr>]\<rparr>)
      else None)"
| "fire (ReadReady i) s =
     (if i < length (aggregations s) \<and> read_ready (aggregations s ! i) = None
      then Some (s\<lparr>aggregations := (aggregations s)
                    [i := (aggregations s ! i)\<lparr>read_ready := Some (ready (service s))\<rparr>]\<rparr>)
      else None)"
| "fire (ReadShuttingDown i) s =
     (if i < length (aggregations s) \<and> read_ready (aggregations s ! i) \<noteq> None \<and>
         read_shuttingDown (aggregations s ! i) = None
      then Some (s\<lparr>aggregations := (aggregations s)
                    [i := (aggregations s ! i)
                            \<lparr>read_shuttingDown := Some (shuttingDown (service s))\<rparr>]\<rparr>)
      else None)"
| "fire (Visit i k) s =
     (if i < length (aggregations s) \<and>
         read_shuttingDown (aggregations s ! i) \<noteq> None \<and>
         k < length (checkers (service s)) \<and>
         fst (checkers (service s) ! k) \<notin> set (map fst (visited (aggregations s ! i)))
      then Some (s\<lparr>aggregations := (aggregations s)
                    [i := (aggregations s ! i)
                            \<lparr>visited := visited (aggregations s ! i) @
                               [checkers (service s) ! k]\<rparr>]\<rparr>)
      else None)"
| "fire (RUnlock i) s =
     (if i < length (aggregations s) \<and>
         read_shuttingDown (aggregations s ! i) \<noteq> None \<and>
         set (map fst (checkers (service s))) \<subseteq>
           set (map fst (visited (aggregations s ! i)))
      then Some (s\<lparr>aggregations := take i (aggregations s) @
                    drop (Suc i) (aggregations s)\<rparr>)
      else None)"
| "fire (Lock st) s =
     (if holder s = NoWriter \<and> aggregations s = []
      then Some (s\<lparr>holder := Locked st\<rparr>) else None)"
| "fire Assign s =
     (case holder s of
        Locked st \<Rightarrow> Some (s\<lparr>service := setter_body st (service s), holder := Assigned\<rparr>)
      | _ \<Rightarrow> None)"
| "fire Unlock s =
     (if holder s = Assigned then Some (s\<lparr>holder := NoWriter\<rparr>) else None)"

fun fire_all :: "event list \<Rightarrow> Shared \<Rightarrow> Shared option" where
  "fire_all [] s = Some s"
| "fire_all (e # es) s = (case fire e s of None \<Rightarrow> None | Some s' \<Rightarrow> fire_all es s')"

definition unlocked :: "HealthService \<Rightarrow> Shared" where
  "unlocked h = \<lparr>service = h, aggregations = [], holder = NoWriter\<rparr>"

text \<open>
  What an aggregation in progress has read agrees with the service \<open>h\<close>; and the state
  is consistent when a writer excludes readers and every aggregation in progress agrees
  with the service as it is.
\<close>

definition snapshot_of :: "HealthService \<Rightarrow> aggregation \<Rightarrow> bool" where
  "snapshot_of h a =
     (locked_at a = h \<and>
      (read_ready a = None \<or> read_ready a = Some (ready h)) \<and>
      (read_shuttingDown a = None \<or> read_shuttingDown a = Some (shuttingDown h)) \<and>
      set (visited a) \<subseteq> set (checkers h))"

definition consistent :: "Shared \<Rightarrow> bool" where
  "consistent s =
     ((holder s = NoWriter \<or> aggregations s = []) \<and>
      list_all (snapshot_of (service s)) (aggregations s))"

section \<open>Examples for the logger\<close>

text \<open>
  A library and a logger to run the definitions on: the encoder writes the level and the
  message of an entry, and the logger is the one \<^verbatim>\<open>NewLogger\<close> makes in an empty store.
\<close>

definition example_library :: Library where
  "example_library =
     \<lparr>time_Now_Format = (\<lambda>layout. ''2024-01-01T00:00:00Z''),
      json_Marshal = (\<lambda>e. Some (Level e @ '' '' @ Message e)),
      json_MarshalIndent = (\<lambda>e. Some (Level e @ '' '' @ Message e))\<rparr>"

definition example_logger :: "Logger \<times> Store" where
  "example_logger =
     NewLogger ''gotunnel-server'' ''production'' INFO 0 1
       \<lparr>formatter_at = Map.empty, written = (\<lambda>_. [])\<rparr>"

section \<open>Aggregation\<close>

lemma run_checkers_returns:
  "list_all (responds ctx) (map snd cs) \<Longrightarrow>
   \<exists>res cr. run_checkers ctx cs (result, checkResults) = Some (res, cr)"
proof (induction cs arbitrary: result checkResults)
  case Nil
  then show ?case by simp
next
  case (Cons a cs)
  obtain name c where a: "a = (name, c)" by (cases a)
  from Cons.prems a have "checker_Check c ctx \<noteq> NeverReturns"
    by (simp add: responds_def)
  moreover from Cons.prems have "list_all (responds ctx) (map snd cs)" by simp
  ultimately show ?case
    using Cons.IH a by (auto split: check_outcome.splits option.splits)
qed

lemma run_checkers_result:
  "run_checkers ctx cs (result, checkResults) = Some (res, cr) \<Longrightarrow>
   res = (if list_ex (fails ctx) (map snd cs)
          then result(''status'' \<mapsto> JString ''unhealthy'') else result)"
proof (induction cs arbitrary: result checkResults)
  case Nil
  then show ?case by simp
next
  case (Cons a cs)
  obtain name c where a: "a = (name, c)" by (cases a)
  show ?case
  proof (cases "checker_Check c ctx")
    case NeverReturns
    with Cons.prems a show ?thesis by simp
  next
    case (Returns e)
    show ?thesis
    proof (cases e)
      case None
      with Returns have nf: "\<not> fails ctx c" by (simp add: fails_def)
      from None Returns Cons.prems a
      have "run_checkers ctx cs
              (result, checkResults(name \<mapsto> JMap [''status'' \<mapsto> JString ''healthy''])) =
            Some (res, cr)"
        by simp
      from Cons.IH [OF this] nf a show ?thesis by simp
    next
      case (Some err)
      with Returns have f: "fails ctx c" by (simp add: fails_def)
      from Some Returns Cons.prems a
      have "run_checkers ctx cs
              (result(''status'' \<mapsto> JString ''unhealthy''),
               checkResults(name \<mapsto>
                 JMap [''status'' \<mapsto> JString ''unhealthy'', ''error'' \<mapsto> JString err])) =
            Some (res, cr)"
        by simp
      from Cons.IH [OF this] f a show ?thesis by (auto simp: fun_eq_iff)
    qed
  qed
qed

lemma run_checkers_checkResults:
  "run_checkers ctx cs (result, checkResults) = Some (res, cr) \<Longrightarrow>
   distinct (map fst cs) \<Longrightarrow>
   cr n = (case map_of cs n of None \<Rightarrow> checkResults n | Some c \<Rightarrow> Some (check_entry ctx c))"
proof (induction cs arbitrary: result checkResults)
  case Nil
  then show ?case by simp
next
  case (Cons a cs)
  obtain name c where a: "a = (name, c)" by (cases a)
  from Cons.prems a have d: "distinct (map fst cs)" and nin: "name \<notin> fst ` set cs"
    by auto
  from nin have mo: "map_of cs name = None"
    by (simp add: map_of_eq_None_iff)
  show ?case
  proof (cases "checker_Check c ctx")
    case NeverReturns
    with Cons.prems a show ?thesis by simp
  next
    case (Returns e)
    show ?thesis
    proof (cases e)
      case None
      with Returns have ce: "check_entry ctx c = JMap [''status'' \<mapsto> JString ''healthy'']"
        by (simp add: check_entry_def)
      from None Returns Cons.prems a
      have "run_checkers ctx cs
              (result, checkResults(name \<mapsto> JMap [''status'' \<mapsto> JString ''healthy''])) =
            Some (res, cr)"
        by simp
      from Cons.IH [OF this d] ce a mo show ?thesis
        by (cases "n = name") (simp_all split: option.splits)
    next
      case (Some err)
      with Returns have ce: "check_entry ctx c =
          JMap [''status'' \<mapsto> JString ''unhealthy'', ''error'' \<mapsto> JString err]"
        by (simp add: check_entry_def)
      from Some Returns Cons.prems a
      have "run_checkers ctx cs
              (result(''status'' \<mapsto> JString ''unhealthy''),
               checkResults(name \<mapsto>
                 JMap [''status'' \<mapsto> JString ''unhealthy'', ''error'' \<mapsto> JString err])) =
            Some (res, cr)"
        by simp
      from Cons.IH [OF this d] ce a mo show ?thesis
        by (cases "n = name") (simp_all split: option.splits)
    qed
  qed
qed

lemma run_checkers_blocked:
  "\<not> list_all (responds ctx) (map snd cs) \<Longrightarrow>
   run_checkers ctx cs (result, checkResults) = None"
proof (induction cs arbitrary: result checkResults)
  case Nil
  then show ?case by simp
next
  case (Cons a cs)
  obtain name c where a: "a = (name, c)" by (cases a)
  show ?case
  proof (cases "checker_Check c ctx")
    case NeverReturns
    with a show ?thesis by simp
  next
    case (Returns e)
    then have "responds ctx c" by (simp add: responds_def)
    with Cons.prems a have "\<not> list_all (responds ctx) (map snd cs)"
      by simp
    from Cons.IH [OF this] Returns a show ?thesis
      by (cases e) simp_all
  qed
qed

lemma Check_Some_iff:
  "(\<exists>r. Check h ctx now = Some r) = list_all (responds ctx) (map snd (checkers h))"
proof (cases "list_all (responds ctx) (map snd (checkers h))")
  case True
  from run_checkers_returns [OF True]
  obtain res cr where "run_checkers ctx (checkers h)
      ([''status'' \<mapsto> JString ''healthy'', ''timestamp'' \<mapsto> JString now,
        ''ready'' \<mapsto> JBool (ready h), ''shutting_down'' \<mapsto> JBool (shuttingDown h)],
       Map.empty) = Some (res, cr)"
    by blast
  with True show ?thesis by (simp add: Check_def)
next
  case False
  from run_checkers_blocked [OF False] False show ?thesis
    by (simp add: Check_def)
qed

lemma check_entry_healthy:
  "\<not> fails ctx c \<Longrightarrow> responds ctx c \<Longrightarrow>
   check_entry ctx c = JMap [''status'' \<mapsto> JString ''healthy'']"
  by (simp add: check_entry_def fails_def responds_def
      split: check_outcome.splits option.splits)

lemma check_entry_unhealthy:
  "checker_Check c ctx = Returns (Some err) \<Longrightarrow>
   check_entry ctx c =
     JMap [''status'' \<mapsto> JString ''unhealthy'', ''error'' \<mapsto> JString err]"
  by (simp add: check_entry_def)

lemma fails_iff: "fails ctx c = (\<exists>err. checker_Check c ctx = Returns (Some err))"
  by (simp add: fails_def split: check_outcome.splits option.splits)

lemma dom_unhealthy:
  "dom [''status'' \<mapsto> JString ''unhealthy'', ''error'' \<mapsto> JString err] = {''status'', ''error''}"
  by auto

lemma Check_report:
  assumes d: "distinct (map fst (checkers h))"
    and r: "list_all (responds ctx) (map snd (checkers h))"
  shows "\<exists>res. Check h ctx now =
           Some (res(''checks'' \<mapsto>
                   JMap (\<lambda>n. map_option (check_entry ctx) (map_of (checkers h) n)))) \<and>
           res ''timestamp'' = Some (JString now) \<and>
           res ''ready'' = Some (JBool (ready h)) \<and>
           res ''shutting_down'' = Some (JBool (shuttingDown h)) \<and>
           dom res = {''status'', ''timestamp'', ''ready'', ''shutting_down''}"
proof -
  let ?r0 = "[''status'' \<mapsto> JString ''healthy'', ''timestamp'' \<mapsto> JString now,
              ''ready'' \<mapsto> JBool (ready h), ''shutting_down'' \<mapsto> JBool (shuttingDown h)]"
  from run_checkers_returns [OF r]
  obtain res cr where rc: "run_checkers ctx (checkers h) (?r0, Map.empty) = Some (res, cr)"
    by blast
  from run_checkers_result [OF rc]
  have res: "res = (if list_ex (fails ctx) (map snd (checkers h))
                    then ?r0(''status'' \<mapsto> JString ''unhealthy'') else ?r0)" .
  have "cr n = map_option (check_entry ctx) (map_of (checkers h) n)" for n
    using run_checkers_checkResults [OF rc d, of n] by (simp split: option.splits)
  then have cr: "cr = (\<lambda>n. map_option (check_entry ctx) (map_of (checkers h) n))"
    by (simp add: fun_eq_iff)
  from rc cr have "Check h ctx now =
      Some (res(''checks'' \<mapsto>
              JMap (\<lambda>n. map_option (check_entry ctx) (map_of (checkers h) n))))"
    by (simp add: Check_def)
  moreover from res have "res ''timestamp'' = Some (JString now)"
    and "res ''ready'' = Some (JBool (ready h))"
    and "res ''shutting_down'' = Some (JBool (shuttingDown h))"
    by simp_all
  moreover from res have "dom res = {''status'', ''timestamp'', ''ready'', ''shutting_down''}"
    by (auto split: if_splits)
  ultimately show ?thesis by blast
qed

text \<open>
  The report in full, and the order of the loop: Go ranges over a map in no fixed order, and
  two lists for one map give the same result, a report or no return.
\<close>

lemma Check_value:
  assumes d: "distinct (map fst (checkers h))"
    and r: "list_all (responds ctx) (map snd (checkers h))"
  shows "Check h ctx now =
     Some ([''status'' \<mapsto> JString (if list_ex (fails ctx) (map snd (checkers h))
                                     then ''unhealthy'' else ''healthy''),
            ''timestamp'' \<mapsto> JString now,
            ''ready'' \<mapsto> JBool (ready h),
            ''shutting_down'' \<mapsto> JBool (shuttingDown h),
            ''checks'' \<mapsto>
              JMap (\<lambda>n. map_option (check_entry ctx) (map_of (checkers h) n))])"
proof -
  let ?r0 = "[''status'' \<mapsto> JString ''healthy'', ''timestamp'' \<mapsto> JString now,
              ''ready'' \<mapsto> JBool (ready h), ''shutting_down'' \<mapsto> JBool (shuttingDown h)]"
  from run_checkers_returns [OF r]
  obtain res cr where rc: "run_checkers ctx (checkers h) (?r0, Map.empty) = Some (res, cr)"
    by blast
  from run_checkers_result [OF rc]
  have res: "res = (if list_ex (fails ctx) (map snd (checkers h))
                    then ?r0(''status'' \<mapsto> JString ''unhealthy'') else ?r0)" .
  have "cr n = map_option (check_entry ctx) (map_of (checkers h) n)" for n
    using run_checkers_checkResults [OF rc d, of n] by (simp split: option.splits)
  then have cr: "cr = (\<lambda>n. map_option (check_entry ctx) (map_of (checkers h) n))"
    by (simp add: fun_eq_iff)
  from rc have "Check h ctx now = Some (res(''checks'' \<mapsto> JMap cr))"
    by (simp add: Check_def)
  also have "res(''checks'' \<mapsto> JMap cr) =
     [''status'' \<mapsto> JString (if list_ex (fails ctx) (map snd (checkers h))
                                     then ''unhealthy'' else ''healthy''),
            ''timestamp'' \<mapsto> JString now,
            ''ready'' \<mapsto> JBool (ready h),
            ''shutting_down'' \<mapsto> JBool (shuttingDown h),
            ''checks'' \<mapsto>
              JMap (\<lambda>n. map_option (check_entry ctx) (map_of (checkers h) n))]"
    unfolding res cr by (auto simp: fun_eq_iff)
  finally show ?thesis .
qed

lemma Check_any_order:
  assumes d: "distinct (map fst cs)" and d': "distinct (map fst cs')"
    and m: "map_of cs = map_of cs'"
  shows "Check (h\<lparr>checkers := cs\<rparr>) ctx now = Check (h\<lparr>checkers := cs'\<rparr>) ctx now"
proof -
  from d d' m have s: "set cs = set cs'" by (simp add: map_of_inject_set)
  then have e: "list_ex (fails ctx) (map snd cs) = list_ex (fails ctx) (map snd cs')"
    and a: "list_all (responds ctx) (map snd cs) = list_all (responds ctx) (map snd cs')"
    by (simp_all add: list_ex_iff list_all_iff)
  show ?thesis
  proof (cases "list_all (responds ctx) (map snd cs)")
    case True
    with a have T': "list_all (responds ctx) (map snd cs')" by simp
    from True d have 1: "list_all (responds ctx) (map snd (checkers (h\<lparr>checkers := cs\<rparr>)))"
      "distinct (map fst (checkers (h\<lparr>checkers := cs\<rparr>)))" by simp_all
    from T' d' have 2: "list_all (responds ctx) (map snd (checkers (h\<lparr>checkers := cs'\<rparr>)))"
      "distinct (map fst (checkers (h\<lparr>checkers := cs'\<rparr>)))" by simp_all
    show ?thesis
      unfolding Check_value [OF 1(2) 1(1)] Check_value [OF 2(2) 2(1)]
      using e m by simp
  next
    case False
    with a have F': "\<not> list_all (responds ctx) (map snd cs')" by simp
    from False Check_Some_iff [of "h\<lparr>checkers := cs\<rparr>" ctx now]
    have "Check (h\<lparr>checkers := cs\<rparr>) ctx now = None" by (cases "Check (h\<lparr>checkers := cs\<rparr>) ctx now") auto
    moreover from F' Check_Some_iff [of "h\<lparr>checkers := cs'\<rparr>" ctx now]
    have "Check (h\<lparr>checkers := cs'\<rparr>) ctx now = None" by (cases "Check (h\<lparr>checkers := cs'\<rparr>) ctx now") auto
    ultimately show ?thesis by simp
  qed
qed

text \<open>
  Claim C3. For every set of registered checkers that all return, \<^verbatim>\<open>Check\<close> returns a
  report whose \<^verbatim>\<open>status\<close> is \<^verbatim>\<open>unhealthy\<close> when at least one checker returned an error
  and \<^verbatim>\<open>healthy\<close> when none did; with no checker registered the status is \<^verbatim>\<open>healthy\<close>.
\<close>

theorem Check_status:
  assumes "list_all (responds ctx) (map snd (checkers h))"
  shows "\<exists>r. Check h ctx now = Some r \<and>
             r ''status'' = Some (JString (if list_ex (fails ctx) (map snd (checkers h))
                                            then ''unhealthy'' else ''healthy'')) \<and>
             (checkers h = [] \<longrightarrow> r ''status'' = Some (JString ''healthy''))"
proof -
  let ?r0 = "[''status'' \<mapsto> JString ''healthy'', ''timestamp'' \<mapsto> JString now,
              ''ready'' \<mapsto> JBool (ready h), ''shutting_down'' \<mapsto> JBool (shuttingDown h)]"
  from run_checkers_returns [OF assms]
  obtain res cr where rc: "run_checkers ctx (checkers h) (?r0, Map.empty) = Some (res, cr)"
    by blast
  from run_checkers_result [OF rc]
  have res: "res = (if list_ex (fails ctx) (map snd (checkers h))
                    then ?r0(''status'' \<mapsto> JString ''unhealthy'') else ?r0)" .
  from rc have "Check h ctx now = Some (res(''checks'' \<mapsto> JMap cr))"
    by (simp add: Check_def)
  moreover from res have "(res(''checks'' \<mapsto> JMap cr)) ''status'' =
      Some (JString (if list_ex (fails ctx) (map snd (checkers h))
                     then ''unhealthy'' else ''healthy''))"
    by simp
  ultimately show ?thesis by auto
qed


theorem Check_status_witness:
  "list_all (responds Background)
     (map snd (checkers (RegisterChecker
        \<lparr>checker_Name = ''db'', checker_Check = (\<lambda>ctx. Returns (Some ''down''))\<rparr>
        (RegisterChecker (NewCertificateChecker ''server.crt'') NewHealthService)))) \<and>
   (\<exists>r. Check (RegisterChecker
        \<lparr>checker_Name = ''db'', checker_Check = (\<lambda>ctx. Returns (Some ''down''))\<rparr>
        (RegisterChecker (NewCertificateChecker ''server.crt'') NewHealthService))
        Background ''2024-01-01T00:00:00Z'' = Some r \<and>
      r ''status'' = Some (JString ''unhealthy''))"
proof -
  let ?h = "RegisterChecker
        \<lparr>checker_Name = ''db'', checker_Check = (\<lambda>ctx. Returns (Some ''down''))\<rparr>
        (RegisterChecker (NewCertificateChecker ''server.crt'') NewHealthService)"
  have cs: "checkers ?h =
      [(''certificate'', NewCertificateChecker ''server.crt''),
       (''db'', \<lparr>checker_Name = ''db'', checker_Check = (\<lambda>ctx. Returns (Some ''down''))\<rparr>)]"
    by (simp add: RegisterChecker_def NewHealthService_def NewCertificateChecker_def)
  have r: "list_all (responds Background) (map snd (checkers ?h))"
    unfolding cs by (simp add: responds_def NewCertificateChecker_def)
  have f: "list_ex (fails Background) (map snd (checkers ?h))"
    unfolding cs by (simp add: fails_def NewCertificateChecker_def)
  from Check_status [OF r, of "''2024-01-01T00:00:00Z''"] f r show ?thesis
    by auto
qed

text \<open>
  Claim C7. Every report of \<^verbatim>\<open>Check\<close> has exactly the keys \<^verbatim>\<open>status\<close>, \<^verbatim>\<open>timestamp\<close>,
  \<^verbatim>\<open>ready\<close>, \<^verbatim>\<open>shutting_down\<close> and \<^verbatim>\<open>checks\<close>; \<^verbatim>\<open>checks\<close> is a map whose keys
  are the names of the registered checkers, and the entry of a checker has the status
  \<^verbatim>\<open>healthy\<close> or \<^verbatim>\<open>unhealthy\<close> and an \<^verbatim>\<open>error\<close> (the checker's message) exactly when
  the checker failed.
\<close>

theorem Check_report_shape:
  assumes d: "distinct (map fst (checkers h))"
    and r: "list_all (responds ctx) (map snd (checkers h))"
  shows "\<exists>rep cr. Check h ctx now = Some rep \<and>
           dom rep = {''status'', ''timestamp'', ''ready'', ''shutting_down'', ''checks''} \<and>
           rep ''timestamp'' = Some (JString now) \<and>
           rep ''ready'' = Some (JBool (ready h)) \<and>
           rep ''shutting_down'' = Some (JBool (shuttingDown h)) \<and>
           rep ''checks'' = Some (JMap cr) \<and>
           dom cr = fst ` set (checkers h) \<and>
           (\<forall>(name, c) \<in> set (checkers h). \<exists>e. cr name = Some (JMap e) \<and>
              e ''status'' = Some (JString (if fails ctx c then ''unhealthy'' else ''healthy'')) \<and>
              (''error'' \<in> dom e) = fails ctx c \<and>
              (\<forall>err. checker_Check c ctx = Returns (Some err) \<longrightarrow>
                     e ''error'' = Some (JString err)) \<and>
              dom e \<subseteq> {''status'', ''error''})"
proof -
  let ?cr = "\<lambda>n. map_option (check_entry ctx) (map_of (checkers h) n)"
  from Check_report [OF d r, of now] obtain res where
    c: "Check h ctx now = Some (res(''checks'' \<mapsto> JMap ?cr))"
    and t: "res ''timestamp'' = Some (JString now)"
    and rd: "res ''ready'' = Some (JBool (ready h))"
    and sd: "res ''shutting_down'' = Some (JBool (shuttingDown h))"
    and dm: "dom res = {''status'', ''timestamp'', ''ready'', ''shutting_down''}"
    by blast
  let ?rep = "res(''checks'' \<mapsto> JMap ?cr)"
  have 1: "dom ?rep = {''status'', ''timestamp'', ''ready'', ''shutting_down'', ''checks''}"
    using dm by auto
  have 2: "dom ?cr = fst ` set (checkers h)"
    by (auto simp: dom_def map_of_eq_None_iff)
  have 3: "\<exists>e. ?cr name = Some (JMap e) \<and>
              e ''status'' = Some (JString (if fails ctx c then ''unhealthy'' else ''healthy'')) \<and>
              (''error'' \<in> dom e) = fails ctx c \<and>
              (\<forall>err. checker_Check c ctx = Returns (Some err) \<longrightarrow>
                     e ''error'' = Some (JString err)) \<and>
              dom e \<subseteq> {''status'', ''error''}"
    if nc: "(name, c) \<in> set (checkers h)" for name c
  proof -
    from d nc have m: "map_of (checkers h) name = Some c" by simp
    from r nc have rc: "responds ctx c" by (auto simp: list_all_iff)
    show ?thesis
    proof (cases "fails ctx c")
      case True
      then obtain err where err: "checker_Check c ctx = Returns (Some err)"
        by (auto simp: fails_iff)
      let ?e = "[''status'' \<mapsto> JString ''unhealthy'', ''error'' \<mapsto> JString err]"
      from m check_entry_unhealthy [OF err] have "?cr name = Some (JMap ?e)" by simp
      moreover from True have "?e ''status'' =
          Some (JString (if fails ctx c then ''unhealthy'' else ''healthy''))" by simp
      moreover from True have "(''error'' \<in> dom ?e) = fails ctx c" by simp
      moreover from err have "\<forall>err'. checker_Check c ctx = Returns (Some err') \<longrightarrow>
          ?e ''error'' = Some (JString err')" by simp
      moreover have "dom ?e \<subseteq> {''status'', ''error''}" by (simp add: dom_unhealthy)
      ultimately show ?thesis by blast
    next
      case False
      let ?e = "[''status'' \<mapsto> JString ''healthy'']"
      from m check_entry_healthy [OF False rc] have "?cr name = Some (JMap ?e)" by simp
      moreover from False have "?e ''status'' =
          Some (JString (if fails ctx c then ''unhealthy'' else ''healthy''))" by simp
      moreover from False have "(''error'' \<in> dom ?e) = fails ctx c" by simp
      moreover from False have "\<forall>err'. checker_Check c ctx = Returns (Some err') \<longrightarrow>
          ?e ''error'' = Some (JString err')" by (simp add: fails_iff)
      moreover have "dom ?e \<subseteq> {''status'', ''error''}" by simp
      ultimately show ?thesis by blast
    qed
  qed
  have 4: "?rep ''checks'' = Some (JMap ?cr)" by simp
  from t rd sd have 5: "?rep ''timestamp'' = Some (JString now)"
    "?rep ''ready'' = Some (JBool (ready h))"
    "?rep ''shutting_down'' = Some (JBool (shuttingDown h))" by simp_all
  from 3 have 6: "\<forall>(name, c) \<in> set (checkers h). \<exists>e. ?cr name = Some (JMap e) \<and>
              e ''status'' = Some (JString (if fails ctx c then ''unhealthy'' else ''healthy'')) \<and>
              (''error'' \<in> dom e) = fails ctx c \<and>
              (\<forall>err. checker_Check c ctx = Returns (Some err) \<longrightarrow>
                     e ''error'' = Some (JString err)) \<and>
              dom e \<subseteq> {''status'', ''error''}"
    by blast
  from c 1 2 4 5 6 show ?thesis by blast
qed

lemma checkers_example:
  "checkers (RegisterChecker (failing_checker ''certificate'' ''cert expired'') NewHealthService) =
   [(''certificate'', failing_checker ''certificate'' ''cert expired'')]"
  by (simp add: RegisterChecker_def NewHealthService_def failing_checker_def)

theorem Check_report_shape_witness:
  "distinct (map fst (checkers
     (RegisterChecker (failing_checker ''certificate'' ''cert expired'') NewHealthService))) \<and>
   list_all (responds Background) (map snd (checkers
     (RegisterChecker (failing_checker ''certificate'' ''cert expired'') NewHealthService))) \<and>
   (\<exists>rep cr e.
      Check (RegisterChecker (failing_checker ''certificate'' ''cert expired'') NewHealthService)
        Background ''2024-01-01T00:00:00Z'' = Some rep \<and>
      rep ''checks'' = Some (JMap cr) \<and>
      cr ''certificate'' = Some (JMap e) \<and>
      e ''status'' = Some (JString ''unhealthy'') \<and>
      e ''error'' = Some (JString ''cert expired''))"
proof -
  let ?c = "failing_checker ''certificate'' ''cert expired''"
  let ?h = "RegisterChecker ?c NewHealthService"
  have d: "distinct (map fst (checkers ?h))"
    unfolding checkers_example by simp
  have r: "list_all (responds Background) (map snd (checkers ?h))"
    unfolding checkers_example by (simp add: responds_def failing_checker_def)
  have f: "fails Background ?c"
    by (simp add: fails_def failing_checker_def)
  have o: "checker_Check ?c Background = Returns (Some ''cert expired'')"
    by (simp add: failing_checker_def)
  have m: "(''certificate'', ?c) \<in> set (checkers ?h)"
    unfolding checkers_example by simp
  from Check_report_shape [OF d r, of "''2024-01-01T00:00:00Z''"]
  obtain rep cr where c: "Check ?h Background ''2024-01-01T00:00:00Z'' = Some rep"
    and k: "rep ''checks'' = Some (JMap cr)"
    and e: "\<forall>(name, c) \<in> set (checkers ?h). \<exists>e. cr name = Some (JMap e) \<and>
              e ''status'' = Some (JString (if fails Background c then ''unhealthy'' else ''healthy'')) \<and>
              (''error'' \<in> dom e) = fails Background c \<and>
              (\<forall>err. checker_Check c Background = Returns (Some err) \<longrightarrow>
                     e ''error'' = Some (JString err)) \<and>
              dom e \<subseteq> {''status'', ''error''}"
    by - (elim exE conjE, rule that, assumption+)
  from bspec [OF e m] obtain e' where 1: "cr ''certificate'' = Some (JMap e')"
    and 2: "e' ''status'' = Some (JString (if fails Background ?c then ''unhealthy'' else ''healthy''))"
    and 3: "\<forall>err. checker_Check ?c Background = Returns (Some err) \<longrightarrow>
                     e' ''error'' = Some (JString err)"
    by (simp only: prod.case) blast
  from 2 f have 4: "e' ''status'' = Some (JString ''unhealthy'')" by simp
  from 3 o have 5: "e' ''error'' = Some (JString ''cert expired'')" by simp
  from c k 1 4 5 have "\<exists>rep cr e.
      Check ?h Background ''2024-01-01T00:00:00Z'' = Some rep \<and>
      rep ''checks'' = Some (JMap cr) \<and>
      cr ''certificate'' = Some (JMap e) \<and>
      e ''status'' = Some (JString ''unhealthy'') \<and>
      e ''error'' = Some (JString ''cert expired'')"
    by blast
  with d r show ?thesis by (intro conjI)
qed

section \<open>Registration\<close>

lemma RegisterChecker_distinct:
  "distinct (map fst (checkers h)) \<Longrightarrow> distinct (map fst (checkers (RegisterChecker c h)))"
  by (simp add: RegisterChecker_def distinct_update)

lemma RegisterChecker_map_of:
  "map_of (checkers (RegisterChecker c h)) = (map_of (checkers h))(checker_Name c \<mapsto> c)"
  by (simp add: RegisterChecker_def update_conv')

lemma RegisterChecker_last:
  "checker_Name c' = checker_Name c \<Longrightarrow>
   RegisterChecker c (RegisterChecker c' h) = RegisterChecker c h"
  by (simp add: RegisterChecker_def)

text \<open>
  Claim C8. \<^verbatim>\<open>RegisterChecker\<close> is total: it stores the checker under its name, replacing
  an entry of that name and leaving the other entries and both flags as they were. After
  two registrations under one name the service is the one that only the second
  registration gives, so an aggregation does not depend on the first checker (not even on
  whether it would return); and the next aggregation, when its checkers return, holds an
  entry for the registered checker and for every checker registered before under another
  name.
\<close>

theorem RegisterChecker_registers:
  "map_of (checkers (RegisterChecker c h)) = (map_of (checkers h))(checker_Name c \<mapsto> c) \<and>
   ready (RegisterChecker c h) = ready h \<and>
   shuttingDown (RegisterChecker c h) = shuttingDown h \<and>
   (distinct (map fst (checkers h)) \<longrightarrow>
      distinct (map fst (checkers (RegisterChecker c h)))) \<and>
   (checker_Name c' = checker_Name c \<longrightarrow>
      RegisterChecker c (RegisterChecker c' h) = RegisterChecker c h \<and>
      Check (RegisterChecker c (RegisterChecker c' h)) ctx now =
        Check (RegisterChecker c h) ctx now) \<and>
   (distinct (map fst (checkers h)) \<longrightarrow>
    list_all (responds ctx) (map snd (checkers (RegisterChecker c h))) \<longrightarrow>
      (\<exists>rep. Check (RegisterChecker c h) ctx now = Some rep \<and>
         rep ''checks'' =
           Some (JMap (\<lambda>n. map_option (check_entry ctx)
                              (((map_of (checkers h))(checker_Name c \<mapsto> c)) n)))))"
proof -
  have 1: "map_of (checkers (RegisterChecker c h)) = (map_of (checkers h))(checker_Name c \<mapsto> c)"
    by (rule RegisterChecker_map_of)
  have 2: "ready (RegisterChecker c h) = ready h"
    and 3: "shuttingDown (RegisterChecker c h) = shuttingDown h"
    by (simp_all add: RegisterChecker_def)
  have 4: "distinct (map fst (checkers h)) \<longrightarrow>
      distinct (map fst (checkers (RegisterChecker c h)))"
    by (simp add: RegisterChecker_distinct)
  have 5: "checker_Name c' = checker_Name c \<longrightarrow>
      RegisterChecker c (RegisterChecker c' h) = RegisterChecker c h \<and>
      Check (RegisterChecker c (RegisterChecker c' h)) ctx now =
        Check (RegisterChecker c h) ctx now"
    by (simp add: RegisterChecker_last)
  have 6: "\<exists>rep. Check (RegisterChecker c h) ctx now = Some rep \<and>
         rep ''checks'' =
           Some (JMap (\<lambda>n. map_option (check_entry ctx)
                              (((map_of (checkers h))(checker_Name c \<mapsto> c)) n)))"
    if d: "distinct (map fst (checkers h))"
      and r: "list_all (responds ctx) (map snd (checkers (RegisterChecker c h)))"
  proof -
    from Check_report [OF RegisterChecker_distinct [OF d] r, of now]
    obtain res where "Check (RegisterChecker c h) ctx now =
           Some (res(''checks'' \<mapsto>
                   JMap (\<lambda>n. map_option (check_entry ctx)
                                  (map_of (checkers (RegisterChecker c h)) n))))"
      by - (elim exE conjE, rule that, assumption)
    then show ?thesis by (simp add: 1)
  qed
  from 6 have 7: "distinct (map fst (checkers h)) \<longrightarrow>
    list_all (responds ctx) (map snd (checkers (RegisterChecker c h))) \<longrightarrow>
      (\<exists>rep. Check (RegisterChecker c h) ctx now = Some rep \<and>
         rep ''checks'' =
           Some (JMap (\<lambda>n. map_option (check_entry ctx)
                              (((map_of (checkers h))(checker_Name c \<mapsto> c)) n))))"
    by (intro impI)
  from 1 2 3 4 5 7 show ?thesis by (intro conjI)
qed

lemma checkers_certificate:
  "checkers (RegisterChecker (NewCertificateChecker ''server.crt'') NewHealthService) =
   [(''certificate'', NewCertificateChecker ''server.crt'')]"
  by (simp add: RegisterChecker_def NewHealthService_def NewCertificateChecker_def)

theorem RegisterChecker_registers_witness:
  "distinct (map fst (checkers NewHealthService)) \<and>
   checker_Name (stuck_checker ''certificate'') =
     checker_Name (NewCertificateChecker ''server.crt'') \<and>
   list_all (responds Background)
     (map snd (checkers (RegisterChecker (NewCertificateChecker ''server.crt'')
        NewHealthService))) \<and>
   RegisterChecker (NewCertificateChecker ''server.crt'')
     (RegisterChecker (stuck_checker ''certificate'') NewHealthService) =
   RegisterChecker (NewCertificateChecker ''server.crt'') NewHealthService \<and>
   distinct (map fst (checkers
     (RegisterChecker (NewCertificateChecker ''server.crt'') NewHealthService))) \<and>
   (\<exists>rep. Check (RegisterChecker (NewCertificateChecker ''server.crt'') NewHealthService)
            Background ''2024-01-01T00:00:00Z'' = Some rep)"
proof -
  let ?c = "NewCertificateChecker ''server.crt''"
  let ?c' = "stuck_checker ''certificate''"
  note T = RegisterChecker_registers
    [of ?c NewHealthService ?c' Background "''2024-01-01T00:00:00Z''"]
  have d: "distinct (map fst (checkers NewHealthService))"
    by (simp add: NewHealthService_def)
  have n: "checker_Name ?c' = checker_Name ?c"
    by (simp add: stuck_checker_def NewCertificateChecker_def)
  have r: "list_all (responds Background)
     (map snd (checkers (RegisterChecker ?c NewHealthService)))"
    unfolding checkers_certificate by (simp add: responds_def NewCertificateChecker_def)
  from T have "distinct (map fst (checkers NewHealthService)) \<longrightarrow>
      distinct (map fst (checkers (RegisterChecker ?c NewHealthService)))"
    by (elim conjE)
  with d have d': "distinct (map fst (checkers (RegisterChecker ?c NewHealthService)))"
    by (rule rev_mp)
  from T have "checker_Name ?c' = checker_Name ?c \<longrightarrow>
      RegisterChecker ?c (RegisterChecker ?c' NewHealthService) =
        RegisterChecker ?c NewHealthService \<and>
      Check (RegisterChecker ?c (RegisterChecker ?c' NewHealthService)) Background
          ''2024-01-01T00:00:00Z'' =
        Check (RegisterChecker ?c NewHealthService) Background ''2024-01-01T00:00:00Z''"
    by (elim conjE)
  with n have e: "RegisterChecker ?c (RegisterChecker ?c' NewHealthService) =
        RegisterChecker ?c NewHealthService"
    by simp
  from T have "distinct (map fst (checkers NewHealthService)) \<longrightarrow>
    list_all (responds Background) (map snd (checkers (RegisterChecker ?c NewHealthService))) \<longrightarrow>
      (\<exists>rep. Check (RegisterChecker ?c NewHealthService) Background ''2024-01-01T00:00:00Z'' =
           Some rep \<and>
         rep ''checks'' =
           Some (JMap (\<lambda>n. map_option (check_entry Background)
                  (((map_of (checkers NewHealthService))(checker_Name ?c \<mapsto> ?c)) n))))"
    by (elim conjE)
  with d r have "\<exists>rep. Check (RegisterChecker ?c NewHealthService) Background
       ''2024-01-01T00:00:00Z'' = Some rep"
    by - (drule (1) mp, drule (1) mp, elim exE conjE, rule exI)
  with d n r e d' show ?thesis by (intro conjI)
qed

section \<open>Aggregation and the deadline\<close>

text \<open>
  Claim C2 says that \<^verbatim>\<open>Check\<close> returns at the deadline with a timeout entry for a checker
  that never responds. \<^verbatim>\<open>Check\<close> calls the checkers one after another and waits for each:
  with a checker that never returns it does not return, whatever deadline the context has.
\<close>

theorem Check_deadline_counterexample:
  "Check (RegisterChecker (stuck_checker ''stuck'') NewHealthService)
     (WithTimeout Background 0 5000) ''2024-01-01T00:00:00Z'' = None"
  by (simp add: Check_def RegisterChecker_def NewHealthService_def stuck_checker_def)


text \<open>
  Claim C2, amended. \<^verbatim>\<open>Check\<close> hands the caller's context to every checker and returns
  exactly when every registered checker returns. It makes no entry of its own for a
  deadline: the entry of a checker is made from what the checker returned, so a checker
  that gives up at the deadline and returns an error is reported as any failure is.
\<close>

theorem Check_returns_iff_checkers_return:
  "((\<exists>rep. Check h ctx now = Some rep) = list_all (responds ctx) (map snd (checkers h))) \<and>
   (distinct (map fst (checkers h)) \<longrightarrow>
    list_all (responds ctx) (map snd (checkers h)) \<longrightarrow>
      (\<exists>rep. Check h ctx now = Some rep \<and>
         rep ''checks'' =
           Some (JMap (\<lambda>n. map_option (check_entry ctx) (map_of (checkers h) n)))))"
proof -
  have 1: "\<exists>rep. Check h ctx now = Some rep \<and>
         rep ''checks'' =
           Some (JMap (\<lambda>n. map_option (check_entry ctx) (map_of (checkers h) n)))"
    if d: "distinct (map fst (checkers h))"
      and r: "list_all (responds ctx) (map snd (checkers h))"
  proof -
    from Check_report [OF d r, of now]
    obtain res where "Check h ctx now =
           Some (res(''checks'' \<mapsto>
                   JMap (\<lambda>n. map_option (check_entry ctx) (map_of (checkers h) n))))"
      by - (elim exE conjE, rule that, assumption)
    then show ?thesis by simp
  qed
  from 1 have 2: "distinct (map fst (checkers h)) \<longrightarrow>
    list_all (responds ctx) (map snd (checkers h)) \<longrightarrow>
      (\<exists>rep. Check h ctx now = Some rep \<and>
         rep ''checks'' =
           Some (JMap (\<lambda>n. map_option (check_entry ctx) (map_of (checkers h) n))))"
    by (intro impI)
  from Check_Some_iff [of h ctx now] 2 show ?thesis by (intro conjI)
qed

theorem Check_returns_iff_checkers_return_witness:
  "distinct (map fst (checkers
     (RegisterChecker (failing_checker ''certificate'' ''cert expired'') NewHealthService))) \<and>
   list_all (responds (WithTimeout Background 0 5000)) (map snd (checkers
     (RegisterChecker (failing_checker ''certificate'' ''cert expired'') NewHealthService))) \<and>
   (\<exists>rep. Check
       (RegisterChecker (failing_checker ''certificate'' ''cert expired'') NewHealthService)
       (WithTimeout Background 0 5000) ''2024-01-01T00:00:00Z'' = Some rep)"
proof -
  let ?h = "RegisterChecker (failing_checker ''certificate'' ''cert expired'') NewHealthService"
  have cs: "checkers ?h = [(''certificate'', failing_checker ''certificate'' ''cert expired'')]"
    by (simp add: RegisterChecker_def NewHealthService_def failing_checker_def)
  have d: "distinct (map fst (checkers ?h))"
    unfolding cs by simp
  have r: "list_all (responds (WithTimeout Background 0 5000)) (map snd (checkers ?h))"
    unfolding cs by (simp add: responds_def failing_checker_def)
  from Check_returns_iff_checkers_return
    [of ?h "WithTimeout Background 0 5000" "''2024-01-01T00:00:00Z''"] r
  have "\<exists>rep. Check ?h (WithTimeout Background 0 5000) ''2024-01-01T00:00:00Z'' = Some rep"
    by simp
  with d r show ?thesis by (intro conjI)
qed

section \<open>The handlers\<close>

text \<open>
  Claim C4. \<^verbatim>\<open>/readyz\<close> answers 503 \<^verbatim>\<open>shutting down\<close> when \<^verbatim>\<open>shuttingDown\<close> is set,
  otherwise 503 \<^verbatim>\<open>not ready\<close> when \<^verbatim>\<open>ready\<close> is not set, otherwise 200 \<^verbatim>\<open>ready\<close>,
  whatever checkers are registered (it answers also when a checker would never return).
\<close>

theorem readyz_precedence:
  "readyz (h\<lparr>checkers := cs\<rparr>) =
     (if shuttingDown h
      then \<lparr>resp_status = 503, resp_header = [], resp_body = Text ''shutting down''\<rparr>
      else if \<not> ready h
      then \<lparr>resp_status = 503, resp_header = [], resp_body = Text ''not ready''\<rparr>
      else \<lparr>resp_status = 200, resp_header = [], resp_body = Text ''ready''\<rparr>)"
  by (simp add: readyz_def IsShuttingDown_def IsReady_def StatusOK_def
      StatusServiceUnavailable_def)

theorem readyz_precedence_witness:
  "readyz (SetShuttingDown True (SetReady True
      (RegisterChecker (stuck_checker ''stuck'') NewHealthService))) =
     \<lparr>resp_status = 503, resp_header = [], resp_body = Text ''shutting down''\<rparr>"
proof -
  have "SetShuttingDown True (SetReady True
      (RegisterChecker (stuck_checker ''stuck'') NewHealthService)) =
    \<lparr>checkers = [], ready = True, shuttingDown = True\<rparr>
      \<lparr>checkers := [(''stuck'', stuck_checker ''stuck'')]\<rparr>"
    by (simp add: SetShuttingDown_def SetReady_def RegisterChecker_def NewHealthService_def
        stuck_checker_def)
  with readyz_precedence
    [where h = "\<lparr>checkers = [], ready = True, shuttingDown = True\<rparr>"
       and cs = "[(''stuck'', stuck_checker ''stuck'')]"]
  show ?thesis by simp
qed

text \<open>
  Claim C6. When the aggregation returns a report, \<^verbatim>\<open>/healthz\<close> answers 503 if the
  report's status is \<^verbatim>\<open>unhealthy\<close> (that is, some checker failed) or \<^verbatim>\<open>shuttingDown\<close>
  is set, and 200 otherwise; the body is the encoded report in both cases.
\<close>

theorem healthz_status:
  assumes "Check h ctx now = Some rep"
  shows "healthz h ctx now =
           Some \<lparr>resp_status =
                    (if rep ''status'' = Some (JString ''unhealthy'') \<or> shuttingDown h
                     then 503 else 200),
                  resp_header = [(''Content-Type'', ''application/json'')],
                  resp_body = JsonBody rep\<rparr> \<and>
         (rep ''status'' = Some (JString ''unhealthy'')) =
           list_ex (fails ctx) (map snd (checkers h))"
proof -
  from assms have "healthz h ctx now =
           Some \<lparr>resp_status =
                    (if rep ''status'' = Some (JString ''unhealthy'') \<or> shuttingDown h
                     then 503 else 200),
                  resp_header = [(''Content-Type'', ''application/json'')],
                  resp_body = JsonBody rep\<rparr>"
    by (simp add: healthz_def IsShuttingDown_def StatusOK_def StatusServiceUnavailable_def)
  moreover have "(rep ''status'' = Some (JString ''unhealthy'')) =
           list_ex (fails ctx) (map snd (checkers h))"
  proof -
    let ?r0 = "[''status'' \<mapsto> JString ''healthy'', ''timestamp'' \<mapsto> JString now,
                ''ready'' \<mapsto> JBool (ready h), ''shutting_down'' \<mapsto> JBool (shuttingDown h)]"
    from assms obtain res cr
      where rc: "run_checkers ctx (checkers h) (?r0, Map.empty) = Some (res, cr)"
        and rep: "rep = res(''checks'' \<mapsto> JMap cr)"
      by (auto simp: Check_def split: option.splits)
    from run_checkers_result [OF rc]
    have "res ''status'' = Some (JString (if list_ex (fails ctx) (map snd (checkers h))
                                           then ''unhealthy'' else ''healthy''))"
      by simp
    with rep show ?thesis by simp
  qed
  ultimately show ?thesis by (rule conjI)
qed

theorem healthz_status_witness:
  "Check (SetReady True (RegisterChecker (NewCertificateChecker ''server.crt'') NewHealthService))
     Background ''2024-01-01T00:00:00Z'' =
   Some [''status'' \<mapsto> JString ''healthy'',
         ''timestamp'' \<mapsto> JString ''2024-01-01T00:00:00Z'',
         ''ready'' \<mapsto> JBool True,
         ''shutting_down'' \<mapsto> JBool False,
         ''checks'' \<mapsto> JMap [''certificate'' \<mapsto> JMap [''status'' \<mapsto> JString ''healthy'']]] \<and>
   map_option resp_status
     (healthz (SetReady True
        (RegisterChecker (NewCertificateChecker ''server.crt'') NewHealthService))
        Background ''2024-01-01T00:00:00Z'') = Some 200"
proof -
  let ?h = "SetReady True (RegisterChecker (NewCertificateChecker ''server.crt'') NewHealthService)"
  let ?rep = "[''status'' \<mapsto> JString ''healthy'',
         ''timestamp'' \<mapsto> JString ''2024-01-01T00:00:00Z'',
         ''ready'' \<mapsto> JBool True,
         ''shutting_down'' \<mapsto> JBool False,
         ''checks'' \<mapsto> JMap [''certificate'' \<mapsto> JMap [''status'' \<mapsto> JString ''healthy'']]]"
  have c: "Check ?h Background ''2024-01-01T00:00:00Z'' = Some ?rep"
    by (simp add: Check_def SetReady_def RegisterChecker_def NewHealthService_def
        NewCertificateChecker_def)
  have s: "\<not> shuttingDown ?h"
    by (simp add: SetReady_def RegisterChecker_def NewHealthService_def)
  have u: "?rep ''status'' \<noteq> Some (JString ''unhealthy'')"
    by simp
  from healthz_status [OF c] s u
  have "map_option resp_status (healthz ?h Background ''2024-01-01T00:00:00Z'') = Some 200"
    by simp
  with c show ?thesis by (intro conjI)
qed

section \<open>Loggers\<close>

text \<open>
  Claim C10. \<^verbatim>\<open>WithFields\<close> returns a logger with the level, service name, environment,
  formatter and output of its receiver, whatever fields it is given; every logging
  method then ends for the returned logger as it does for the receiver, with the same
  bytes written and the same store left.
\<close>

theorem WithFields_ignores_fields:
  "level (WithFields l fields0) = level l \<and>
   serviceName (WithFields l fields0) = serviceName l \<and>
   environment (WithFields l fields0) = environment l \<and>
   formatter (WithFields l fields0) = formatter l \<and>
   output' (WithFields l fields0) = output' l \<and>
   WithFields l fields0 = WithFields l fields1 \<and>
   log lib (WithFields l fields0) ctx lvl msg fs st = log lib l ctx lvl msg fs st \<and>
   Debug lib (WithFields l fields0) ctx msg fs st = Debug lib l ctx msg fs st \<and>
   Info lib (WithFields l fields0) ctx msg fs st = Info lib l ctx msg fs st \<and>
   Warn lib (WithFields l fields0) ctx msg fs st = Warn lib l ctx msg fs st \<and>
   Error lib (WithFields l fields0) ctx msg fs st = Error lib l ctx msg fs st \<and>
   Fatal lib (WithFields l fields0) ctx msg fs st = Fatal lib l ctx msg fs st"
proof -
  have f: "level (WithFields l fields0) = level l"
    "serviceName (WithFields l fields0) = serviceName l"
    "environment (WithFields l fields0) = environment l"
    "formatter (WithFields l fields0) = formatter l"
    "output' (WithFields l fields0) = output' l"
    by (simp_all add: WithFields_def)
  have e: "WithFields l fields0 = WithFields l fields1"
    by (simp add: WithFields_def)
  have lg: "log lib (WithFields l fields0) ctx lvl' msg fs st = log lib l ctx lvl' msg fs st"
    for lvl'
    unfolding log_def f ..
  from f e lg [of lvl] lg [of DEBUG] lg [of INFO] lg [of WARN] lg [of ERROR] lg [of FATAL]
  show ?thesis
    unfolding Debug_def Info_def Warn_def Error_def Fatal_def by simp
qed

lemma example_logged:
  "(case Info example_library (fst example_logger) Background ''hello'' Map.empty
           (snd example_logger) of
      Done st \<Rightarrow> written st 1 | _ \<Rightarrow> []) = ''INFO hello'' @ [CHR 0x0A]"
  by (simp add: Info_def log_def NewLogger_def INFO_def Background_def string_of_value_def
      Format_def example_library_def example_logger_def Level_String_def DEBUG_def RFC3339_def)

theorem WithFields_ignores_fields_witness:
  "(case Info example_library
           (WithFields (fst example_logger) [''request_id'' \<mapsto> JString ''r1''])
           Background ''hello'' Map.empty (snd example_logger) of
      Done st \<Rightarrow> written st 1 | _ \<Rightarrow> []) = ''INFO hello'' @ [CHR 0x0A]"
proof -
  from WithFields_ignores_fields
    [of "fst example_logger" "[''request_id'' \<mapsto> JString ''r1'']" Map.empty example_library
        Background INFO "''hello''" Map.empty "snd example_logger"]
  have "Info example_library
           (WithFields (fst example_logger) [''request_id'' \<mapsto> JString ''r1''])
           Background ''hello'' Map.empty (snd example_logger) =
        Info example_library (fst example_logger) Background ''hello'' Map.empty
           (snd example_logger)"
    by (elim conjE)
  with example_logged show ?thesis by simp
qed

section \<open>Shutdown\<close>

lemma step_cases:
  assumes "step env s' = Some s"
  shows "(pc s' = AwaitSignal \<and> pc s = LogSignal \<and> healthService s = healthService s' \<and>
            teardowns s = teardowns s') \<or>
         (pc s' = LogSignal \<and> pc s = MakeShutdownCtx \<and> healthService s = healthService s' \<and>
            teardowns s = teardowns s') \<or>
         (pc s' = MakeShutdownCtx \<and> pc s = MarkShuttingDown \<and>
            healthService s = healthService s' \<and> teardowns s = teardowns s') \<or>
         (pc s' = MarkShuttingDown \<and> pc s = MarkNotReady \<and>
            healthService s = SetShuttingDown True (healthService s') \<and>
            teardowns s = teardowns s') \<or>
         (pc s' = MarkNotReady \<and> pc s = ShutdownHTTP \<and>
            healthService s = SetReady False (healthService s') \<and>
            teardowns s = teardowns s') \<or>
         (pc s' = ShutdownHTTP \<and> pc s = ShutdownTunnel \<and>
            healthService s = healthService s') \<or>
         (pc s' = ShutdownTunnel \<and> pc s = WaitGoroutines \<and>
            healthService s = healthService s') \<or>
         (pc s' = WaitGoroutines \<and> pc s = LogCompleted \<and>
            healthService s = healthService s') \<or>
         (pc s' = LogCompleted \<and> pc s = Returned \<and> healthService s = healthService s')"
proof (cases "pc s'")
  case AwaitSignal
  with assms show ?thesis by (auto simp: step_def split: option.splits)
next
  case LogSignal
  with assms show ?thesis by (auto simp: step_def)
next
  case MakeShutdownCtx
  with assms show ?thesis by (auto simp: step_def)
next
  case MarkShuttingDown
  with assms show ?thesis by (auto simp: step_def)
next
  case MarkNotReady
  with assms show ?thesis by (auto simp: step_def)
next
  case ShutdownHTTP
  with assms show ?thesis by (auto simp: step_def split: option.splits)
next
  case ShutdownTunnel
  with assms show ?thesis by (auto simp: step_def split: option.splits)
next
  case WaitGoroutines
  with assms show ?thesis by (auto simp: step_def split: option.splits)
next
  case LogCompleted
  with assms show ?thesis by (auto simp: step_def)
next
  case Returned
  with assms show ?thesis by (simp add: step_def)
qed

lemma run_invariant:
  "run env n (initial h0 t0) = Some s \<Longrightarrow>
   (pc s \<in> {AwaitSignal, LogSignal, MakeShutdownCtx, MarkShuttingDown} \<longrightarrow>
      healthService s = h0 \<and> teardowns s = []) \<and>
   (pc s = MarkNotReady \<longrightarrow>
      healthService s = SetShuttingDown True h0 \<and> teardowns s = []) \<and>
   (pc s = ShutdownHTTP \<longrightarrow> teardowns s = []) \<and>
   (pc s \<in> {ShutdownHTTP, ShutdownTunnel, WaitGoroutines, LogCompleted, Returned} \<longrightarrow>
      healthService s = SetReady False (SetShuttingDown True h0))"
proof (induction n arbitrary: s)
  case 0
  then show ?case by (auto simp: initial_def)
next
  case (Suc n)
  from Suc.prems obtain s' where r: "run env n (initial h0 t0) = Some s'"
    and st: "step env s' = Some s"
    by (auto split: option.splits)
  from Suc.IH [OF r] step_cases [OF st] show ?case
    by (elim disjE) auto
qed

lemma run_Suc: "run env n s0 = Some s' \<Longrightarrow> run env (Suc n) s0 = step env s'"
  by simp

lemma run_to_teardown:
  assumes sig: "signal_at env = Some ts"
  shows "run env 5 (initial h0 t0) =
     Some \<lparr>pc = ShutdownHTTP, clock = max t0 ts,
           healthService = SetReady False (SetShuttingDown True h0),
           shutdownCtx = Some (WithTimeout Background (max t0 ts) 30000),
           teardowns = [],
           logged = [(INFO, ''Shutdown signal received, initiating graceful shutdown'',
                      Map.empty)]\<rparr>"
proof -
  let ?i = "initial h0 t0"
  let ?t = "max t0 ts"
  let ?l = "[(INFO, ''Shutdown signal received, initiating graceful shutdown'', Map.empty)]"
  have 0: "run env 0 ?i = Some ?i" by simp
  have 1: "run env (Suc 0) ?i =
      Some \<lparr>pc = LogSignal, clock = ?t, healthService = h0, shutdownCtx = None,
            teardowns = [], logged = []\<rparr>"
    unfolding run_Suc [OF 0] by (simp add: step_def initial_def sig)
  have 2: "run env (Suc (Suc 0)) ?i =
      Some \<lparr>pc = MakeShutdownCtx, clock = ?t, healthService = h0, shutdownCtx = None,
            teardowns = [], logged = ?l\<rparr>"
    unfolding run_Suc [OF 1] by (simp add: step_def)
  have 3: "run env (Suc (Suc (Suc 0))) ?i =
      Some \<lparr>pc = MarkShuttingDown, clock = ?t, healthService = h0,
            shutdownCtx = Some (WithTimeout Background ?t 30000),
            teardowns = [], logged = ?l\<rparr>"
    unfolding run_Suc [OF 2] by (simp add: step_def)
  have 4: "run env (Suc (Suc (Suc (Suc 0)))) ?i =
      Some \<lparr>pc = MarkNotReady, clock = ?t, healthService = SetShuttingDown True h0,
            shutdownCtx = Some (WithTimeout Background ?t 30000),
            teardowns = [], logged = ?l\<rparr>"
    unfolding run_Suc [OF 3] by (simp add: step_def)
  have 5: "run env (Suc (Suc (Suc (Suc (Suc 0))))) ?i =
      Some \<lparr>pc = ShutdownHTTP, clock = ?t,
            healthService = SetReady False (SetShuttingDown True h0),
            shutdownCtx = Some (WithTimeout Background ?t 30000),
            teardowns = [], logged = ?l\<rparr>"
    unfolding run_Suc [OF 4] by (simp add: step_def)
  have "(5::nat) = Suc (Suc (Suc (Suc (Suc 0))))" by simp
  with 5 show ?thesis by (simp only:)
qed

lemma run_through_teardown:
  assumes sig: "signal_at env = Some ts"
    and http: "httpServer_Shutdown env (WithTimeout Background (max t0 ts) 30000) (max t0 ts) =
               Some (d1, e1)"
    and tun: "server_Shutdown env (WithTimeout Background (max t0 ts) 30000) (max t0 ts + d1) =
              Some (d2, e2)"
  shows "run env 6 (initial h0 t0) =
     Some \<lparr>pc = ShutdownTunnel, clock = max t0 ts + d1,
           healthService = SetReady False (SetShuttingDown True h0),
           shutdownCtx = Some (WithTimeout Background (max t0 ts) 30000),
           teardowns = [(HTTPServer, max t0 ts, WithTimeout Background (max t0 ts) 30000)],
           logged = [(INFO, ''Shutdown signal received, initiating graceful shutdown'',
                      Map.empty)] @ log_error ''HTTP server shutdown error'' e1\<rparr>"
    and "run env 7 (initial h0 t0) =
     Some \<lparr>pc = WaitGoroutines, clock = max t0 ts + d1 + d2,
           healthService = SetReady False (SetShuttingDown True h0),
           shutdownCtx = Some (WithTimeout Background (max t0 ts) 30000),
           teardowns = [(HTTPServer, max t0 ts, WithTimeout Background (max t0 ts) 30000),
                        (TunnelServer, max t0 ts + d1,
                         WithTimeout Background (max t0 ts) 30000)],
           logged = [(INFO, ''Shutdown signal received, initiating graceful shutdown'',
                      Map.empty)] @ log_error ''HTTP server shutdown error'' e1 @
                    log_error ''Tunnel server shutdown error'' e2\<rparr>"
proof -
  have s6: "(6::nat) = Suc 5" and s7: "(7::nat) = Suc 6" by simp_all
  show 6: "run env 6 (initial h0 t0) =
     Some \<lparr>pc = ShutdownTunnel, clock = max t0 ts + d1,
           healthService = SetReady False (SetShuttingDown True h0),
           shutdownCtx = Some (WithTimeout Background (max t0 ts) 30000),
           teardowns = [(HTTPServer, max t0 ts, WithTimeout Background (max t0 ts) 30000)],
           logged = [(INFO, ''Shutdown signal received, initiating graceful shutdown'',
                      Map.empty)] @ log_error ''HTTP server shutdown error'' e1\<rparr>"
    unfolding s6 run_Suc [OF run_to_teardown [OF sig]] by (simp add: step_def http)
  show "run env 7 (initial h0 t0) =
     Some \<lparr>pc = WaitGoroutines, clock = max t0 ts + d1 + d2,
           healthService = SetReady False (SetShuttingDown True h0),
           shutdownCtx = Some (WithTimeout Background (max t0 ts) 30000),
           teardowns = [(HTTPServer, max t0 ts, WithTimeout Background (max t0 ts) 30000),
                        (TunnelServer, max t0 ts + d1,
                         WithTimeout Background (max t0 ts) 30000)],
           logged = [(INFO, ''Shutdown signal received, initiating graceful shutdown'',
                      Map.empty)] @ log_error ''HTTP server shutdown error'' e1 @
                    log_error ''Tunnel server shutdown error'' e2\<rparr>"
    unfolding s7 run_Suc [OF 6] by (simp add: step_def tun)
qed

text \<open>
  Claim C1. In the shutdown sequence \<^verbatim>\<open>shuttingDown\<close> is set, then \<^verbatim>\<open>ready\<close> is
  cleared, and only then is a component torn down. Up to the first write the health
  service is as it was; between the two writes only \<^verbatim>\<open>shuttingDown\<close> has changed (and
  \<^verbatim>\<open>/readyz\<close> already answers 503) and no \<^verbatim>\<open>Shutdown\<close> call has been made; from the state
  in which \<^verbatim>\<open>httpServer.Shutdown\<close> is about to be called to the end of \<^verbatim>\<open>main\<close>, that is
  while draining, \<^verbatim>\<open>shuttingDown\<close> is set and \<^verbatim>\<open>ready\<close> is clear, so a probe that reads
  the service in any of these states sees it not ready.
\<close>

theorem flags_written_before_teardown:
  assumes "run env n (initial h0 t0) = Some s"
  shows "(pc s \<in> {AwaitSignal, LogSignal, MakeShutdownCtx, MarkShuttingDown} \<longrightarrow>
            healthService s = h0 \<and> teardowns s = []) \<and>
         (pc s = MarkNotReady \<longrightarrow>
            healthService s = SetShuttingDown True h0 \<and> teardowns s = [] \<and>
            resp_status (readyz (healthService s)) = 503) \<and>
         (pc s = ShutdownHTTP \<longrightarrow> teardowns s = []) \<and>
         (pc s \<in> {ShutdownHTTP, ShutdownTunnel, WaitGoroutines, LogCompleted, Returned} \<longrightarrow>
            healthService s = SetReady False (SetShuttingDown True h0) \<and>
            shuttingDown (healthService s) \<and> \<not> ready (healthService s) \<and>
            \<not> IsReady (healthService s) \<and>
            resp_status (readyz (healthService s)) = 503) \<and>
         (teardowns s \<noteq> [] \<longrightarrow>
            shuttingDown (healthService s) \<and> \<not> ready (healthService s))"
proof -
  note inv = run_invariant [OF assms]
  have a: "pc s \<in> {AwaitSignal, LogSignal, MakeShutdownCtx, MarkShuttingDown} \<longrightarrow>
            healthService s = h0 \<and> teardowns s = []"
    using inv by (elim conjE)
  have b: "pc s = MarkNotReady \<longrightarrow>
            healthService s = SetShuttingDown True h0 \<and> teardowns s = [] \<and>
            resp_status (readyz (healthService s)) = 503"
    using inv
    by (simp add: readyz_def IsShuttingDown_def SetShuttingDown_def
        StatusServiceUnavailable_def)
  have c: "pc s = ShutdownHTTP \<longrightarrow> teardowns s = []"
    using inv by (elim conjE)
  have d: "pc s \<in> {ShutdownHTTP, ShutdownTunnel, WaitGoroutines, LogCompleted, Returned} \<longrightarrow>
            healthService s = SetReady False (SetShuttingDown True h0) \<and>
            shuttingDown (healthService s) \<and> \<not> ready (healthService s) \<and>
            \<not> IsReady (healthService s) \<and>
            resp_status (readyz (healthService s)) = 503"
  proof
    assume "pc s \<in> {ShutdownHTTP, ShutdownTunnel, WaitGoroutines, LogCompleted, Returned}"
    with inv have "healthService s = SetReady False (SetShuttingDown True h0)"
      by (elim conjE) (erule (1) mp)
    then show "healthService s = SetReady False (SetShuttingDown True h0) \<and>
            shuttingDown (healthService s) \<and> \<not> ready (healthService s) \<and>
            \<not> IsReady (healthService s) \<and>
            resp_status (readyz (healthService s)) = 503"
      by (simp add: readyz_def IsShuttingDown_def IsReady_def SetShuttingDown_def SetReady_def
          StatusServiceUnavailable_def)
  qed
  have e: "teardowns s \<noteq> [] \<longrightarrow>
            shuttingDown (healthService s) \<and> \<not> ready (healthService s)"
  proof
    assume t: "teardowns s \<noteq> []"
    with a b c have "pc s \<in> {ShutdownTunnel, WaitGoroutines, LogCompleted, Returned}"
      by (cases "pc s") simp_all
    with d show "shuttingDown (healthService s) \<and> \<not> ready (healthService s)"
      by blast
  qed
  from a b c d e show ?thesis by (intro conjI)
qed

lemma busy_facts:
  "signal_at busy_surroundings = Some 0"
  "httpServer_Shutdown busy_surroundings (WithTimeout Background (max 0 0) 30000) (max 0 0) =
     Some (30000, Some ''context deadline exceeded'')"
  "server_Shutdown busy_surroundings (WithTimeout Background (max 0 0) 30000) (max 0 0 + 30000) =
     Some (10, None)"
  "wg_Wait busy_surroundings t = Some 0"
  by (simp_all add: busy_surroundings_def busy_http_def WithTimeout_def Background_def)

theorem flags_written_before_teardown_witness:
  "map_option pc (run busy_surroundings 6 (initial (SetReady True NewHealthService) 0)) =
     Some ShutdownTunnel \<and>
   map_option teardowns (run busy_surroundings 6 (initial (SetReady True NewHealthService) 0)) =
     Some [(HTTPServer, 0, WithTimeout Background 0 30000)] \<and>
   map_option (\<lambda>s. ready (healthService s))
     (run busy_surroundings 6 (initial (SetReady True NewHealthService) 0)) = Some False \<and>
   map_option (\<lambda>s. shuttingDown (healthService s))
     (run busy_surroundings 6 (initial (SetReady True NewHealthService) 0)) = Some True \<and>
   map_option (\<lambda>s. resp_status (readyz (healthService s)))
     (run busy_surroundings 6 (initial (SetReady True NewHealthService) 0)) = Some 503"
proof -
  let ?h0 = "SetReady True NewHealthService"
  let ?s = "\<lparr>pc = ShutdownTunnel, clock = max 0 0 + 30000,
           healthService = SetReady False (SetShuttingDown True ?h0),
           shutdownCtx = Some (WithTimeout Background (max 0 0) 30000),
           teardowns = [(HTTPServer, max 0 0, WithTimeout Background (max 0 0) 30000)],
           logged = [(INFO, ''Shutdown signal received, initiating graceful shutdown'',
                      Map.empty)] @
                    log_error ''HTTP server shutdown error''
                      (Some ''context deadline exceeded'')\<rparr>"
  have r: "run busy_surroundings 6 (initial ?h0 0) = Some ?s"
    by (rule run_through_teardown(1) [OF busy_facts(1) busy_facts(2) busy_facts(3)])
  have p: "pc ?s \<in> {ShutdownHTTP, ShutdownTunnel, WaitGoroutines, LogCompleted, Returned}"
    by simp
  from flags_written_before_teardown [OF r]
  have "pc ?s \<in> {ShutdownHTTP, ShutdownTunnel, WaitGoroutines, LogCompleted, Returned} \<longrightarrow>
            healthService ?s = SetReady False (SetShuttingDown True ?h0) \<and>
            shuttingDown (healthService ?s) \<and> \<not> ready (healthService ?s) \<and>
            \<not> IsReady (healthService ?s) \<and>
            resp_status (readyz (healthService ?s)) = 503"
    by (elim conjE)
  with p have "shuttingDown (healthService ?s) \<and> \<not> ready (healthService ?s) \<and>
            resp_status (readyz (healthService ?s)) = 503"
    by blast
  with r show ?thesis by simp
qed

text \<open>
  Claim C5 says that the components are torn down independently, one outcome collected
  for each. \<^verbatim>\<open>main\<close> calls \<^verbatim>\<open>httpServer.Shutdown\<close> and, when it has returned,
  \<^verbatim>\<open>server.Shutdown\<close>: with an HTTP server that stays busy up to the deadline the tunnel
  server's teardown begins at the deadline, 30000 ms after the signal.
\<close>

theorem teardown_delayed_counterexample:
  "map_option teardowns (run busy_surroundings 7 (initial NewHealthService 0)) =
     Some [(HTTPServer, 0, WithTimeout Background 0 30000),
           (TunnelServer, 30000, WithTimeout Background 0 30000)]"
  unfolding run_through_teardown(2) [OF busy_facts(1) busy_facts(2) busy_facts(3)]
  by simp


text \<open>
  Claim C5, amended. \<^verbatim>\<open>main\<close> makes one shutdown context with a deadline of 30 s and
  calls \<^verbatim>\<open>Shutdown\<close> once on each component with it, the HTTP server first and the
  tunnel server when that call has returned, whatever it returned; an error is logged,
  and nothing else is kept of a call. \<^verbatim>\<open>main\<close> then waits for the two server goroutines
  with \<^verbatim>\<open>wg.Wait\<close>, which has no deadline, and returns when they are done.
\<close>

theorem teardown_is_sequential:
  assumes sig: "signal_at env = Some ts"
    and http: "httpServer_Shutdown env (WithTimeout Background (max t0 ts) 30000) (max t0 ts) =
               Some (d1, e1)"
    and tun: "server_Shutdown env (WithTimeout Background (max t0 ts) 30000) (max t0 ts + d1) =
              Some (d2, e2)"
  shows "\<exists>s. run env 7 (initial h0 t0) = Some s \<and>
           pc s = WaitGoroutines \<and>
           clock s = max t0 ts + d1 + d2 \<and>
           teardowns s =
             [(HTTPServer, max t0 ts, WithTimeout Background (max t0 ts) 30000),
              (TunnelServer, max t0 ts + d1, WithTimeout Background (max t0 ts) 30000)] \<and>
           logged s =
             [(INFO, ''Shutdown signal received, initiating graceful shutdown'', Map.empty)] @
             log_error ''HTTP server shutdown error'' e1 @
             log_error ''Tunnel server shutdown error'' e2 \<and>
           run env 9 (initial h0 t0) =
             (case wg_Wait env (clock s) of
                None \<Rightarrow> None
              | Some d \<Rightarrow>
                  Some (s\<lparr>pc := Returned, clock := clock s + d,
                          logged := logged s @
                            [(INFO, ''Graceful shutdown completed'', Map.empty)]\<rparr>))"
proof -
  let ?s = "\<lparr>pc = WaitGoroutines, clock = max t0 ts + d1 + d2,
           healthService = SetReady False (SetShuttingDown True h0),
           shutdownCtx = Some (WithTimeout Background (max t0 ts) 30000),
           teardowns = [(HTTPServer, max t0 ts, WithTimeout Background (max t0 ts) 30000),
                        (TunnelServer, max t0 ts + d1,
                         WithTimeout Background (max t0 ts) 30000)],
           logged = [(INFO, ''Shutdown signal received, initiating graceful shutdown'',
                      Map.empty)] @ log_error ''HTTP server shutdown error'' e1 @
                    log_error ''Tunnel server shutdown error'' e2\<rparr>"
  have 7: "run env 7 (initial h0 t0) = Some ?s"
    by (rule run_through_teardown(2) [OF sig http tun])
  have s8: "(8::nat) = Suc 7" and s9: "(9::nat) = Suc (Suc 7)" by simp_all
  have 8: "run env (Suc 7) (initial h0 t0) =
      (case wg_Wait env (clock ?s) of
         None \<Rightarrow> None
       | Some d \<Rightarrow> Some (?s\<lparr>pc := LogCompleted, clock := clock ?s + d\<rparr>))"
    unfolding run_Suc [OF 7] by (simp add: step_def split: option.splits)
  have 9: "run env 9 (initial h0 t0) =
      (case wg_Wait env (clock ?s) of
         None \<Rightarrow> None
       | Some d \<Rightarrow>
           Some (?s\<lparr>pc := Returned, clock := clock ?s + d,
                   logged := logged ?s @
                     [(INFO, ''Graceful shutdown completed'', Map.empty)]\<rparr>))"
    unfolding s9 run.simps(2) [of env "Suc 7"] 8
    by (simp add: step_def split: option.splits)
  have "run env 7 (initial h0 t0) = Some ?s \<and>
           pc ?s = WaitGoroutines \<and>
           clock ?s = max t0 ts + d1 + d2 \<and>
           teardowns ?s =
             [(HTTPServer, max t0 ts, WithTimeout Background (max t0 ts) 30000),
              (TunnelServer, max t0 ts + d1, WithTimeout Background (max t0 ts) 30000)] \<and>
           logged ?s =
             [(INFO, ''Shutdown signal received, initiating graceful shutdown'', Map.empty)] @
             log_error ''HTTP server shutdown error'' e1 @
             log_error ''Tunnel server shutdown error'' e2 \<and>
           run env 9 (initial h0 t0) =
             (case wg_Wait env (clock ?s) of
                None \<Rightarrow> None
              | Some d \<Rightarrow>
                  Some (?s\<lparr>pc := Returned, clock := clock ?s + d,
                          logged := logged ?s @
                            [(INFO, ''Graceful shutdown completed'', Map.empty)]\<rparr>))"
    using 7 9 by simp
  then show ?thesis by (rule exI)
qed

theorem teardown_is_sequential_witness:
  "signal_at busy_surroundings = Some 0 \<and>
   httpServer_Shutdown busy_surroundings (WithTimeout Background (max 0 0) 30000) (max 0 0) =
     Some (30000, Some ''context deadline exceeded'') \<and>
   server_Shutdown busy_surroundings (WithTimeout Background (max 0 0) 30000)
     (max 0 0 + 30000) = Some (10, None) \<and>
   (\<exists>s. run busy_surroundings 7 (initial NewHealthService 0) = Some s \<and>
      clock s = 30010 \<and>
      map (\<lambda>(l, m, f). m) (logged s) =
        [''Shutdown signal received, initiating graceful shutdown'',
         ''HTTP server shutdown error''])"
proof -
  from teardown_is_sequential [OF busy_facts(1) busy_facts(2) busy_facts(3), of NewHealthService]
  obtain s where "run busy_surroundings 7 (initial NewHealthService 0) = Some s"
    and "clock s = max 0 0 + 30000 + 10"
    and "logged s =
             [(INFO, ''Shutdown signal received, initiating graceful shutdown'', Map.empty)] @
             log_error ''HTTP server shutdown error'' (Some ''context deadline exceeded'') @
             log_error ''Tunnel server shutdown error'' None"
    by - (elim exE conjE, rule that, assumption+)
  then have "\<exists>s. run busy_surroundings 7 (initial NewHealthService 0) = Some s \<and>
      clock s = 30010 \<and>
      map (\<lambda>(l, m, f). m) (logged s) =
        [''Shutdown signal received, initiating graceful shutdown'',
         ''HTTP server shutdown error'']"
    by (simp add: log_error_def)
  with busy_facts(1) busy_facts(2) busy_facts(3) show ?thesis by (intro conjI)
qed

section \<open>Aggregation under the lock\<close>

lemma consistent_unlocked: "consistent (unlocked h)"
  by (simp add: consistent_def unlocked_def)

lemma list_all_update:
  "list_all P xs \<Longrightarrow> P v \<Longrightarrow> list_all P (xs[i := v])"
proof -
  assume a: "list_all P xs" and v: "P v"
  have "set (xs[i := v]) \<subseteq> insert v (set xs)" by (rule set_update_subset_insert)
  with a v show ?thesis by (auto simp: list_all_iff)
qed

lemma list_all_remove:
  "list_all P xs \<Longrightarrow> list_all P (take i xs @ drop (Suc i) xs)"
proof -
  assume a: "list_all P xs"
  have "set (take i xs) \<subseteq> set xs" "set (drop (Suc i) xs) \<subseteq> set xs"
    by (rule set_take_subset, rule set_drop_subset)
  with a show ?thesis by (auto simp: list_all_iff)
qed

lemma fire_consistent:
  assumes c: "consistent s" and f: "fire e s = Some s'"
  shows "consistent s'"
proof (cases e)
  case RLock
  with c f show ?thesis
    by (auto simp: consistent_def snapshot_of_def split: if_splits)
next
  case (ReadReady i)
  with f have i: "i < length (aggregations s)"
    and s': "s' = s\<lparr>aggregations := (aggregations s)
                 [i := (aggregations s ! i)\<lparr>read_ready := Some (ready (service s))\<rparr>]\<rparr>"
    by (auto split: if_splits)
  from c have all: "list_all (snapshot_of (service s)) (aggregations s)"
    by (simp add: consistent_def)
  with i have "snapshot_of (service s) (aggregations s ! i)"
    by (simp add: list_all_length)
  then have "snapshot_of (service s)
      ((aggregations s ! i)\<lparr>read_ready := Some (ready (service s))\<rparr>)"
    by (simp add: snapshot_of_def)
  from list_all_update [OF all this] c s' show ?thesis
    by (auto simp: consistent_def)
next
  case (ReadShuttingDown i)
  with f have i: "i < length (aggregations s)"
    and s': "s' = s\<lparr>aggregations := (aggregations s)
                 [i := (aggregations s ! i)
                         \<lparr>read_shuttingDown := Some (shuttingDown (service s))\<rparr>]\<rparr>"
    by (auto split: if_splits)
  from c have all: "list_all (snapshot_of (service s)) (aggregations s)"
    by (simp add: consistent_def)
  with i have "snapshot_of (service s) (aggregations s ! i)"
    by (simp add: list_all_length)
  then have "snapshot_of (service s)
      ((aggregations s ! i)\<lparr>read_shuttingDown := Some (shuttingDown (service s))\<rparr>)"
    by (simp add: snapshot_of_def)
  from list_all_update [OF all this] c s' show ?thesis
    by (auto simp: consistent_def)
next
  case (Visit i k)
  with f have i: "i < length (aggregations s)"
    and k: "k < length (checkers (service s))"
    and s': "s' = s\<lparr>aggregations := (aggregations s)
                 [i := (aggregations s ! i)
                         \<lparr>visited := visited (aggregations s ! i) @
                            [checkers (service s) ! k]\<rparr>]\<rparr>"
    by (auto split: if_splits)
  from c have all: "list_all (snapshot_of (service s)) (aggregations s)"
    by (simp add: consistent_def)
  with i have "snapshot_of (service s) (aggregations s ! i)"
    by (simp add: list_all_length)
  with k have "snapshot_of (service s)
      ((aggregations s ! i)\<lparr>visited := visited (aggregations s ! i) @
                            [checkers (service s) ! k]\<rparr>)"
    by (simp add: snapshot_of_def)
  from list_all_update [OF all this] c s' show ?thesis
    by (auto simp: consistent_def)
next
  case (RUnlock i)
  with f have s': "s' = s\<lparr>aggregations := take i (aggregations s) @
                         drop (Suc i) (aggregations s)\<rparr>"
    by (auto split: if_splits)
  from c have all: "list_all (snapshot_of (service s)) (aggregations s)"
    and h: "holder s = NoWriter \<or> aggregations s = []"
    by (simp_all add: consistent_def)
  from list_all_remove [OF all, of i] h s' show ?thesis
    by (auto simp: consistent_def)
next
  case (Lock st)
  with c f show ?thesis
    by (auto simp: consistent_def split: if_splits)
next
  case Assign
  with f obtain st where l: "holder s = Locked st"
    and s': "s' = s\<lparr>service := setter_body st (service s), holder := Assigned\<rparr>"
    by (auto split: write_lock.splits)
  from c l have "aggregations s = []" by (simp add: consistent_def)
  with s' show ?thesis by (simp add: consistent_def)
next
  case Unlock
  with c f show ?thesis
    by (auto simp: consistent_def split: if_splits)
qed

lemma fire_all_consistent:
  "consistent s \<Longrightarrow> fire_all es s = Some s' \<Longrightarrow> consistent s'"
proof (induction es arbitrary: s)
  case Nil
  then show ?case by simp
next
  case (Cons e es)
  from Cons.prems obtain s1 where f: "fire e s = Some s1" and r: "fire_all es s1 = Some s'"
    by (auto split: option.splits)
  from Cons.IH [OF fire_consistent [OF Cons.prems(1) f] r] show ?case .
qed

lemma fire_service:
  assumes "fire e s = Some s'" and "holder s = NoWriter"
  shows "service s' = service s"
  using assms by (cases e) (auto split: if_splits)

text \<open>
  Claim C9. \<^verbatim>\<open>Check\<close> takes the read lock once and reads both flags and the whole
  checker map before it releases it. In every state the goroutines can reach, an
  aggregation in progress has the service before it exactly as it was when the aggregation
  took the lock, what it has read so far is read from that service, no setter holds or can
  take the write lock, no assignment of a setter can happen, and no step of any goroutine
  changes the service.
\<close>

theorem aggregation_reads_one_snapshot:
  assumes r: "fire_all es (unlocked h0) = Some s"
    and a: "a \<in> set (aggregations s)"
  shows "locked_at a = service s \<and>
         (read_ready a = None \<or> read_ready a = Some (ready (service s))) \<and>
         (read_shuttingDown a = None \<or>
          read_shuttingDown a = Some (shuttingDown (service s))) \<and>
         set (visited a) \<subseteq> set (checkers (service s)) \<and>
         holder s = NoWriter \<and>
         fire (Lock st) s = None \<and>
         fire Assign s = None \<and>
         (\<forall>e s'. fire e s = Some s' \<longrightarrow> service s' = service s)"
proof -
  from fire_all_consistent [OF consistent_unlocked r] have c: "consistent s" .
  from a have ne: "aggregations s \<noteq> []" by auto
  with c have h: "holder s = NoWriter" by (auto simp: consistent_def)
  from c a have "snapshot_of (service s) a" by (simp add: consistent_def list_all_iff)
  then have 1: "locked_at a = service s"
    and 2: "read_ready a = None \<or> read_ready a = Some (ready (service s))"
    and 3: "read_shuttingDown a = None \<or>
          read_shuttingDown a = Some (shuttingDown (service s))"
    and 4: "set (visited a) \<subseteq> set (checkers (service s))"
    by (simp_all add: snapshot_of_def)
  from ne have 5: "fire (Lock st) s = None" by simp
  from h have 6: "fire Assign s = None" by simp
  from h have 7: "\<forall>e s'. fire e s = Some s' \<longrightarrow> service s' = service s"
    by (blast intro: fire_service)
  from 1 2 3 4 h 5 6 7 show ?thesis by (intro conjI)
qed

lemma fire_all_example:
  "fire_all [Lock (CallSetReady True), Assign, Unlock, RLock, ReadReady 0]
     (unlocked NewHealthService) =
   Some \<lparr>service = SetReady True NewHealthService,
         aggregations = [\<lparr>locked_at = SetReady True NewHealthService,
                          read_ready = Some True, read_shuttingDown = None, visited = []\<rparr>],
         holder = NoWriter\<rparr>"
  by (simp add: unlocked_def SetReady_def NewHealthService_def)

theorem aggregation_reads_one_snapshot_witness:
  "map_option (\<lambda>s. map read_ready (aggregations s))
     (fire_all [Lock (CallSetReady True), Assign, Unlock, RLock, ReadReady 0]
        (unlocked NewHealthService)) = Some [Some True] \<and>
   map_option (\<lambda>s. ready (service s))
     (fire_all [Lock (CallSetReady True), Assign, Unlock, RLock, ReadReady 0]
        (unlocked NewHealthService)) = Some True \<and>
   map_option (fire (Lock (CallSetReady False)))
     (fire_all [Lock (CallSetReady True), Assign, Unlock, RLock, ReadReady 0]
        (unlocked NewHealthService)) = Some None"
proof -
  let ?a = "\<lparr>locked_at = SetReady True NewHealthService,
             read_ready = Some True, read_shuttingDown = None, visited = []\<rparr>"
  let ?s = "\<lparr>service = SetReady True NewHealthService, aggregations = [?a],
             holder = NoWriter\<rparr>"
  have m: "?a \<in> set (aggregations ?s)" by simp
  from aggregation_reads_one_snapshot [OF fire_all_example m, of "CallSetReady False"]
  have "fire (Lock (CallSetReady False)) ?s = None"
    by (elim conjE)
  moreover have "ready (service ?s) = True"
    by (simp add: SetReady_def)
  ultimately show ?thesis
    unfolding fire_all_example by simp
qed

end
